theory Spec2Isabelle
  imports Main "HOL-Library.AList" "HOL-Library.Sublist" "HOL-Library.Multiset"
begin

section \<open>Traffic route of the lantern dashboard\<close>

text \<open>
  The route handler \<^verbatim>\<open>GET\<close> reads five grouped sums from the capture database, derives
  per-category totals from the port rows and answers with one JSON object. Record fields
  keep the names of the TypeScript interfaces; where two interfaces share a field name the
  selector is written qualified (\<open>PortRow.count\<close>, \<open>CategorySummary.count\<close>).
\<close>

section \<open>JavaScript numbers\<close>

text \<open>
  Counts and ports are JavaScript numbers, that is IEEE 754 doubles, and the rows hold
  integers. A number with an integer value is modelled by that value, an \<^typ>\<open>int\<close>; the
  doubles among the integers are those that \<open>number_value\<close> leaves as they are. The integers
  \<open>2\<^sup>1\<^sup>0\<^sup>2\<^sup>4\<close> and \<open>- 2\<^sup>1\<^sup>0\<^sup>2\<^sup>4\<close> stand for \<^verbatim>\<open>Infinity\<close> and \<^verbatim>\<open>-Infinity\<close>, which no double
  reaches; zero and minus zero are one value. The values in the rows are finite.

  A double has 53 significant bits. \<open>ulp_of m\<close> is the distance between the doubles around a
  magnitude \<open>m\<close>, and \<open>round_mag\<close> rounds a magnitude to the nearest double, a tie to the one
  with the even significand.
\<close>

fun ulp_of :: "nat \<Rightarrow> nat" where
  "ulp_of m = (if m < 2 ^ 53 then 1 else 2 * ulp_of (m div 2))"

declare ulp_of.simps [simp del]

definition round_mag :: "nat \<Rightarrow> nat" where
  "round_mag m =
     (let u = ulp_of m; q = m div u; r = m mod u
      in if 2 * r < u then q * u
         else if 2 * r > u then (q + 1) * u
         else if even q then q * u else (q + 1) * u)"

text \<open>
  The number value of a mathematical integer: the nearest double, and an infinity from the
  magnitude \<open>2\<^sup>1\<^sup>0\<^sup>2\<^sup>4\<close> of the rounded value on.
\<close>

definition number_value :: "int \<Rightarrow> int" where
  "number_value n =
     (let r = (if n < 0 then - int (round_mag (nat (- n))) else int (round_mag (nat n)))
      in if r \<ge> 2 ^ 1024 then 2 ^ 1024
         else if r \<le> - (2 ^ 1024) then - (2 ^ 1024)
         else r)"

text \<open>
  \<^verbatim>\<open>total += count\<close> for a total that is a number or an infinity and a finite count: an
  infinity stays, and a finite total becomes the number value of the exact sum.
\<close>

definition js_add :: "int \<Rightarrow> int \<Rightarrow> int" where
  "js_add a b = (if a \<ge> 2 ^ 1024 \<or> a \<le> - (2 ^ 1024) then a else number_value (a + b))"

text \<open>
  A number in a template literal is printed by \<^verbatim>\<open>Number::toString\<close>: the shortest decimal
  digits \<open>s\<close> and exponent such that \<open>s\<close> times the power of ten has the number as its number
  value, the closest one when there are several, and of two equally close ones the even
  one. With up to 21 integer digits the digits are followed by zeros, beyond that the
  number is printed as \<^verbatim>\<open>d.ddde+n\<close>. \<open>shortest m e\<close> looks for that decimal from the
  power \<open>10\<^sup>e\<close> downwards and yields its value.
\<close>

definition digit_char :: "nat \<Rightarrow> char" where
  "digit_char d =
     (if d = 0 then CHR ''0'' else if d = 1 then CHR ''1'' else if d = 2 then CHR ''2''
      else if d = 3 then CHR ''3'' else if d = 4 then CHR ''4'' else if d = 5 then CHR ''5''
      else if d = 6 then CHR ''6'' else if d = 7 then CHR ''7'' else if d = 8 then CHR ''8''
      else CHR ''9'')"

fun show_nat :: "nat \<Rightarrow> string" where
  "show_nat n =
     (if n < 10 then [digit_char n] else show_nat (n div 10) @ [digit_char (n mod 10)])"

declare show_nat.simps [simp del]

fun shortest :: "nat \<Rightarrow> nat \<Rightarrow> nat" where
  "shortest m 0 = m"
| "shortest m (Suc e) =
     (let p = 10 ^ Suc e; q = m div p; lo = q * p; hi = lo + p
      in if round_mag lo = m \<and> round_mag hi = m
           then (if m - lo < hi - m then lo
                 else if hi - m < m - lo then hi
                 else if even q then lo else hi)
         else if round_mag lo = m then lo
         else if round_mag hi = m then hi
         else shortest m e)"

definition show_magnitude :: "nat \<Rightarrow> string" where
  "show_magnitude m =
     (if m \<ge> 2 ^ 1024 then ''Infinity''
      else let v = shortest m (length (show_nat m) - 1); ds = show_nat v
           in if v < 10 ^ 21 then ds
              else (case rev (dropWhile (\<lambda>c. c = CHR ''0'') (rev ds)) of
                      [] \<Rightarrow> []
                    | d # rest \<Rightarrow> if rest = [] then [d] else d # ''.'' @ rest)
                   @ ''e+'' @ show_nat (length ds - 1))"

definition show_int :: "int \<Rightarrow> string" where
  "show_int i = (if i < 0 then ''-'' @ show_magnitude (nat (- i)) else show_magnitude (nat i))"

section \<open>Rows and summaries\<close>

record ProtocolRow =
  protocol :: string
  count :: int

record PortRow =
  port :: int
  protocol :: string
  count :: int

record TalkerRow =
  ip :: string
  bytes_sent :: int
  bytes_received :: int
  packets_sent :: int
  packets_received :: int

record DNSRow =
  domain :: string
  query_count :: int

record DestRow =
  address :: string
  connection_count :: int
  bytes_total :: int

text \<open>The value type of the port table, \<^verbatim>\<open>{ category: string; service: string }\<close>.\<close>

record Classification =
  category :: string
  service :: string

text \<open>An element of \<^verbatim>\<open>CategorySummary.ports\<close>, \<^verbatim>\<open>{ port; service; count }\<close>.\<close>

record PortEntry =
  port :: int
  service :: string
  count :: int

record CategorySummary =
  category :: string
  count :: int
  ports :: "PortEntry list"

section \<open>Port classification\<close>

text \<open>
  The object literal \<^verbatim>\<open>portCategories\<close>, in source order. Its keys are pairwise different, so
  the property lookup \<^verbatim>\<open>portCategories[port]\<close> is \<^const>\<open>map_of\<close> on this list.
\<close>

definition portCategories :: "(int \<times> Classification) list" where
  "portCategories =
   [(80, \<lparr>Classification.category = ''Web'', service = ''HTTP''\<rparr>),
    (443, \<lparr>Classification.category = ''Web'', service = ''HTTPS''\<rparr>),
    (8080, \<lparr>Classification.category = ''Web'', service = ''HTTP Proxy''\<rparr>),
    (8443, \<lparr>Classification.category = ''Web'', service = ''HTTPS Alt''\<rparr>),
    (3000, \<lparr>Classification.category = ''Web'', service = ''Dev Server''\<rparr>),
    (5000, \<lparr>Classification.category = ''Web'', service = ''Dev Server''\<rparr>),
    (3306, \<lparr>Classification.category = ''Database'', service = ''MySQL''\<rparr>),
    (5432, \<lparr>Classification.category = ''Database'', service = ''PostgreSQL''\<rparr>),
    (27017, \<lparr>Classification.category = ''Database'', service = ''MongoDB''\<rparr>),
    (6379, \<lparr>Classification.category = ''Database'', service = ''Redis''\<rparr>),
    (1433, \<lparr>Classification.category = ''Database'', service = ''SQL Server''\<rparr>),
    (1521, \<lparr>Classification.category = ''Database'', service = ''Oracle''\<rparr>),
    (25, \<lparr>Classification.category = ''Email'', service = ''SMTP''\<rparr>),
    (465, \<lparr>Classification.category = ''Email'', service = ''SMTPS''\<rparr>),
    (587, \<lparr>Classification.category = ''Email'', service = ''SMTP Submission''\<rparr>),
    (110, \<lparr>Classification.category = ''Email'', service = ''POP3''\<rparr>),
    (995, \<lparr>Classification.category = ''Email'', service = ''POP3S''\<rparr>),
    (143, \<lparr>Classification.category = ''Email'', service = ''IMAP''\<rparr>),
    (993, \<lparr>Classification.category = ''Email'', service = ''IMAPS''\<rparr>),
    (21, \<lparr>Classification.category = ''File Sharing'', service = ''FTP''\<rparr>),
    (22, \<lparr>Classification.category = ''Remote Access'', service = ''SSH''\<rparr>),
    (445, \<lparr>Classification.category = ''File Sharing'', service = ''SMB''\<rparr>),
    (139, \<lparr>Classification.category = ''File Sharing'', service = ''NetBIOS''\<rparr>),
    (2049, \<lparr>Classification.category = ''File Sharing'', service = ''NFS''\<rparr>),
    (53, \<lparr>Classification.category = ''DNS'', service = ''DNS''\<rparr>),
    (67, \<lparr>Classification.category = ''Network'', service = ''DHCP Server''\<rparr>),
    (68, \<lparr>Classification.category = ''Network'', service = ''DHCP Client''\<rparr>),
    (123, \<lparr>Classification.category = ''Network'', service = ''NTP''\<rparr>),
    (161, \<lparr>Classification.category = ''Network'', service = ''SNMP''\<rparr>),
    (554, \<lparr>Classification.category = ''Streaming'', service = ''RTSP''\<rparr>),
    (1935, \<lparr>Classification.category = ''Streaming'', service = ''RTMP''\<rparr>),
    (5004, \<lparr>Classification.category = ''Streaming'', service = ''RTP''\<rparr>),
    (5005, \<lparr>Classification.category = ''Streaming'', service = ''RTP''\<rparr>),
    (5060, \<lparr>Classification.category = ''VoIP'', service = ''SIP''\<rparr>),
    (5061, \<lparr>Classification.category = ''VoIP'', service = ''SIP TLS''\<rparr>),
    (3478, \<lparr>Classification.category = ''VoIP'', service = ''STUN''\<rparr>),
    (5222, \<lparr>Classification.category = ''Messaging'', service = ''XMPP''\<rparr>),
    (23, \<lparr>Classification.category = ''Remote Access'', service = ''Telnet''\<rparr>),
    (3389, \<lparr>Classification.category = ''Remote Access'', service = ''RDP''\<rparr>),
    (5900, \<lparr>Classification.category = ''Remote Access'', service = ''VNC''\<rparr>),
    (5353, \<lparr>Classification.category = ''Discovery'', service = ''mDNS''\<rparr>),
    (1900, \<lparr>Classification.category = ''Discovery'', service = ''SSDP/UPnP''\<rparr>),
    (5355, \<lparr>Classification.category = ''Discovery'', service = ''LLMNR''\<rparr>),
    (137, \<lparr>Classification.category = ''Discovery'', service = ''NetBIOS NS''\<rparr>),
    (138, \<lparr>Classification.category = ''Discovery'', service = ''NetBIOS DG''\<rparr>)]"

text \<open>
  The classifier. The comparisons are those of the source, and the label is the template
  literal \<^verbatim>\<open>`Port ${port}`\<close>.
\<close>

definition categorizePort :: "int \<Rightarrow> Classification" where
  "categorizePort p =
     (case map_of portCategories p of
        Some entry \<Rightarrow> entry
      | None \<Rightarrow>
          if p \<ge> 1024 \<and> p \<le> 49151
            then \<lparr>Classification.category = ''Application'', service = ''Port '' @ show_int p\<rparr>
          else if p \<ge> 49152
            then \<lparr>Classification.category = ''Ephemeral'', service = ''Port '' @ show_int p\<rparr>
          else \<lparr>Classification.category = ''Other'', service = ''Port '' @ show_int p\<rparr>)"

section \<open>Building the categories\<close>

text \<open>
  \<^verbatim>\<open>new Map<string, CategorySummary>()\<close> iterates in insertion order, so it is an association
  list: \<^verbatim>\<open>set\<close> on a new key appends, \<^verbatim>\<open>set\<close> on a present key replaces the value in
  place. The loop body mutates the summary object that the map holds; the model writes the
  changed summary back under its key, which leaves the order of the keys as it is.
\<close>

type_synonym categoryMap = "(string \<times> CategorySummary) list"

definition Map_has :: "categoryMap \<Rightarrow> string \<Rightarrow> bool" where
  "Map_has m k = (map_of m k \<noteq> None)"

definition Map_get :: "categoryMap \<Rightarrow> string \<Rightarrow> CategorySummary option" where
  "Map_get m k = map_of m k"

definition Map_set :: "categoryMap \<Rightarrow> string \<Rightarrow> CategorySummary \<Rightarrow> categoryMap" where
  "Map_set m k v = AList.update k v m"

definition Map_values :: "categoryMap \<Rightarrow> CategorySummary list" where
  "Map_values m = map snd m"

text \<open>
  What a JavaScript \<^verbatim>\<open>throw\<close> carries. \<open>TypeError\<close> is the error of reading a property of
  \<^verbatim>\<open>undefined\<close>; \<open>Thrown\<close> is any error raised by the database client.
\<close>

datatype exn = TypeError | Thrown string

text \<open>
  One iteration of \<^verbatim>\<open>for (const port of ports)\<close>. The non-null assertion in
  \<^verbatim>\<open>categoryMap.get(category)!\<close> is erased at run time: on \<^verbatim>\<open>undefined\<close> the next line would
  throw. \<^verbatim>\<open>cat.count += port.count\<close> is an addition of doubles.
\<close>

definition accumulate_step :: "categoryMap \<Rightarrow> PortRow \<Rightarrow> exn + categoryMap" where
  "accumulate_step m p =
     (let cls = categorizePort (PortRow.port p);
          m1 = (if \<not> Map_has m (Classification.category cls)
                then Map_set m (Classification.category cls)
                       \<lparr>CategorySummary.category = Classification.category cls, count = 0, ports = []\<rparr>
                else m)
      in case Map_get m1 (Classification.category cls) of
           None \<Rightarrow> Inl TypeError
         | Some cat \<Rightarrow>
             Inr (Map_set m1 (Classification.category cls)
                    (cat\<lparr>CategorySummary.count := js_add (CategorySummary.count cat) (PortRow.count p),
                         ports := ports cat @
                           [\<lparr>PortEntry.port = PortRow.port p,
                             service = Classification.service cls,
                             count = PortRow.count p\<rparr>]\<rparr>)))"

fun accumulate :: "categoryMap \<Rightarrow> PortRow list \<Rightarrow> exn + categoryMap" where
  "accumulate m [] = Inr m"
| "accumulate m (p # ps) =
     (case accumulate_step m p of Inl e \<Rightarrow> Inl e | Inr m' \<Rightarrow> accumulate m' ps)"

text \<open>
  \<^verbatim>\<open>Array.prototype.sort(compareFn)\<close> is a stable sort (ECMAScript 2019 and later): elements
  that compare equal keep their order, and with a consistent comparator such as a difference
  of integer counts the outcome is the same for every sorting algorithm. It is modelled as
  insertion sort from the right end, where an element is put in front of the first element
  it does not compare greater than.
\<close>

fun insert_sorted :: "('a \<Rightarrow> 'a \<Rightarrow> int) \<Rightarrow> 'a \<Rightarrow> 'a list \<Rightarrow> 'a list" where
  "insert_sorted cmp x [] = [x]"
| "insert_sorted cmp x (y # ys) =
     (if cmp x y \<le> 0 then x # y # ys else y # insert_sorted cmp x ys)"

definition sort_array :: "('a \<Rightarrow> 'a \<Rightarrow> int) \<Rightarrow> 'a list \<Rightarrow> 'a list" where
  "sort_array cmp xs = foldr (insert_sorted cmp) xs []"

text \<open>
  The comparator \<^verbatim>\<open>(a, b) => b.count - a.count\<close>, for any count field. The sort reads the
  sign of the result only, and the difference of two doubles has the sign of the exact
  difference; the difference of two equal infinities is \<^verbatim>\<open>NaN\<close>, which the sort reads as
  zero.
\<close>

definition by_count_desc :: "('a \<Rightarrow> int) \<Rightarrow> 'a \<Rightarrow> 'a \<Rightarrow> int" where
  "by_count_desc cnt a b = cnt b - cnt a"

text \<open>
  The ranking \<^verbatim>\<open>.sort((a, b) => b.count - a.count).slice(0, n)\<close>, with the count field and the
  limit as parameters.
\<close>

definition topN :: "('a \<Rightarrow> int) \<Rightarrow> nat \<Rightarrow> 'a list \<Rightarrow> 'a list" where
  "topN cnt n xs = take n (sort_array (by_count_desc cnt) xs)"

text \<open>
  \<^verbatim>\<open>Array.from(categoryMap.values()).sort(...).map(cat => ({...cat, ports: ...}))\<close>: the
  categories are sorted by their totals, then each keeps its five largest ports.
\<close>

definition rank_categories :: "CategorySummary list \<Rightarrow> CategorySummary list" where
  "rank_categories cats =
     map (\<lambda>cat. cat\<lparr>ports := topN PortEntry.count 5 (ports cat)\<rparr>)
       (sort_array (by_count_desc CategorySummary.count) cats)"

text \<open>Lines 202 to 230 of the handler: from the port rows to the \<^verbatim>\<open>categories\<close> array.\<close>

definition buildCategories :: "PortRow list \<Rightarrow> exn + CategorySummary list" where
  "buildCategories rows =
     (case accumulate [] rows of
        Inl e \<Rightarrow> Inl e
      | Inr m \<Rightarrow> Inr (rank_categories (Map_values m)))"

section \<open>The request and the database client\<close>

text \<open>
  \<^verbatim>\<open>parseInt(string)\<close> without a radix, after ECMAScript: leading white space is dropped, an
  optional sign is read, a \<^verbatim>\<open>0x\<close> prefix selects radix 16, and the longest prefix of digits is
  converted to its number value; with no digit the result is \<^verbatim>\<open>NaN\<close>. A string is a list
  of 8-bit characters, read as the code units U+0000 to U+00FF; the white space among them
  is tab, line feed, vertical tab, form feed, carriage return, space and the no-break space
  U+00A0. (Beyond twenty significant decimal digits ECMAScript lets an implementation read
  the further digits as zeros; the model converts all digits.)
\<close>

datatype js_number = NaN | Number int

definition isWhiteSpace :: "char \<Rightarrow> bool" where
  "isWhiteSpace c =
     (c \<in> set [CHR 0x09, CHR 0x0A, CHR 0x0B, CHR 0x0C, CHR 0x0D, CHR '' '', CHR 0xA0])"

definition digitTable :: "(char \<times> nat) list" where
  "digitTable =
     [(CHR ''0'', 0), (CHR ''1'', 1), (CHR ''2'', 2), (CHR ''3'', 3), (CHR ''4'', 4),
      (CHR ''5'', 5), (CHR ''6'', 6), (CHR ''7'', 7), (CHR ''8'', 8), (CHR ''9'', 9),
      (CHR ''a'', 10), (CHR ''b'', 11), (CHR ''c'', 12), (CHR ''d'', 13), (CHR ''e'', 14),
      (CHR ''f'', 15), (CHR ''A'', 10), (CHR ''B'', 11), (CHR ''C'', 12), (CHR ''D'', 13),
      (CHR ''E'', 14), (CHR ''F'', 15)]"

definition digitValue :: "nat \<Rightarrow> char \<Rightarrow> nat option" where
  "digitValue R c =
     (case map_of digitTable c of
        None \<Rightarrow> None
      | Some d \<Rightarrow> if d < R then Some d else None)"

definition parseInt :: "string \<Rightarrow> js_number" where
  "parseInt inputString =
     (let S = dropWhile isWhiteSpace inputString;
          sign = (if take 1 S = ''-'' then - 1 else (1 :: int));
          S1 = (if take 1 S = ''+'' \<or> take 1 S = ''-'' then drop 1 S else S);
          hex = (take 2 S1 = ''0x'' \<or> take 2 S1 = ''0X'');
          R = (if hex then 16 else 10);
          S2 = (if hex then drop 2 S1 else S1);
          Z = takeWhile (\<lambda>c. digitValue R c \<noteq> None) S2
      in if Z = [] then NaN
         else Number (number_value
                (sign * int (foldl (\<lambda>a c. case digitValue R c of
                                          None \<Rightarrow> a | Some d \<Rightarrow> a * R + d) 0 Z))))"

text \<open>
  Of the request the handler reads one thing, \<^verbatim>\<open>searchParams.get('captureId')\<close>: a string,
  or \<^verbatim>\<open>null\<close> when the parameter is absent.
\<close>

record request =
  captureId :: "string option"

text \<open>\<^verbatim>\<open>if (captureId)\<close>: \<^verbatim>\<open>null\<close> and the empty string are falsy.\<close>

definition truthy :: "string option \<Rightarrow> bool" where
  "truthy s = (case s of None \<Rightarrow> False | Some t \<Rightarrow> t \<noteq> [])"

text \<open>
  The database client \<^verbatim>\<open>@/lib/db/client\<close> is not part of the sources at hand, so
  \<^verbatim>\<open>getDB\<close> and \<^verbatim>\<open>getAll\<close> are parameters of the handler: \<^verbatim>\<open>getDB\<close> yields a handle or
  throws, and \<^verbatim>\<open>getAll<Row>(db, query, params)\<close> yields rows or throws, one field per row
  type at which the handler calls it.
\<close>

record 'db client =
  getDB :: "exn + 'db"
  getAll_ProtocolRow :: "'db \<Rightarrow> string \<Rightarrow> js_number list \<Rightarrow> exn + ProtocolRow list"
  getAll_PortRow :: "'db \<Rightarrow> string \<Rightarrow> js_number list \<Rightarrow> exn + PortRow list"
  getAll_TalkerRow :: "'db \<Rightarrow> string \<Rightarrow> js_number list \<Rightarrow> exn + TalkerRow list"
  getAll_DNSRow :: "'db \<Rightarrow> string \<Rightarrow> js_number list \<Rightarrow> exn + DNSRow list"
  getAll_DestRow :: "'db \<Rightarrow> string \<Rightarrow> js_number list \<Rightarrow> exn + DestRow list"

section \<open>The five queries\<close>

text \<open>
  Each query is the SQL text the handler concatenates, and its parameter array: with a truthy
  \<^verbatim>\<open>captureId\<close> the \<^verbatim>\<open>WHERE\<close> clause is added and \<^verbatim>\<open>parseInt(captureId)\<close> is pushed.
\<close>

definition whereClause :: "string option \<Rightarrow> string" where
  "whereClause cid = (if truthy cid then '' WHERE capture_id = ?'' else [])"

definition queryParams :: "string option \<Rightarrow> js_number list" where
  "queryParams cid =
     (case cid of None \<Rightarrow> [] | Some s \<Rightarrow> if truthy cid then [parseInt s] else [])"

definition protocolQuery :: "string option \<Rightarrow> string" where
  "protocolQuery cid =
     ''SELECT protocol, SUM(count) as count FROM protocol_counts'' @ whereClause cid @
     '' GROUP BY protocol ORDER BY count DESC''"

definition portsQuery :: "string option \<Rightarrow> string" where
  "portsQuery cid =
     ''SELECT port, protocol, SUM(count) as count FROM top_ports'' @ whereClause cid @
     '' GROUP BY port, protocol ORDER BY count DESC LIMIT 20''"

definition talkersQuery :: "string option \<Rightarrow> string" where
  "talkersQuery cid = ''
      SELECT ip,
        SUM(bytes_sent) as bytes_sent,
        SUM(bytes_received) as bytes_received,
        SUM(packets_sent) as packets_sent,
        SUM(packets_received) as packets_received
      FROM top_talkers
    '' @ whereClause cid @
     '' GROUP BY ip ORDER BY (bytes_sent + bytes_received) DESC LIMIT 20''"

definition dnsQuery :: "string option \<Rightarrow> string" where
  "dnsQuery cid = ''
      SELECT domain, SUM(query_count) as query_count
      FROM dns_domains
    '' @ whereClause cid @
     '' GROUP BY domain ORDER BY query_count DESC LIMIT 50''"

definition destQuery :: "string option \<Rightarrow> string" where
  "destQuery cid = ''
      SELECT address, SUM(connection_count) as connection_count, SUM(bytes_total) as bytes_total
      FROM destinations
    '' @ whereClause cid @
     '' GROUP BY address ORDER BY bytes_total DESC LIMIT 20''"

section \<open>The handler\<close>

text \<open>
  \<^verbatim>\<open>NextResponse.json(body, { status })\<close>: a status code (200 when none is given) and the
  fields of the JSON object in the order of the object literal.
\<close>

datatype json =
    JString string
  | JProtocols "ProtocolRow list"
  | JPorts "PortRow list"
  | JTalkers "TalkerRow list"
  | JDomains "DNSRow list"
  | JDestinations "DestRow list"
  | JCategories "CategorySummary list"

record response =
  status :: nat
  body :: "(string \<times> json) list"

text \<open>The answer of the \<^verbatim>\<open>catch\<close> block.\<close>

definition failed :: response where
  "failed = \<lparr>status = 500, body = [(''error'', JString ''Failed to fetch traffic data'')]\<rparr>"

text \<open>
  A read of the store, as the handler issues it: the SQL text and the parameter array. The
  handler returns its answer together with the reads it issued, in order, so that what
  reached the store is part of the result. Every throw inside the \<^verbatim>\<open>try\<close> block ends in the
  \<^verbatim>\<open>catch\<close> block; its \<^verbatim>\<open>console.error\<close> is left out, and so is the parsing of the request
  URL, which is absolute for every request the framework hands over.
\<close>

type_synonym store_read = "string \<times> js_number list"

definition GET :: "'db client \<Rightarrow> request \<Rightarrow> store_read list \<times> response" where
  "GET c req =
     (let cid = captureId req;
          r1 = (protocolQuery cid, queryParams cid);
          r2 = (portsQuery cid, queryParams cid);
          r3 = (talkersQuery cid, queryParams cid);
          r4 = (dnsQuery cid, queryParams cid);
          r5 = (destQuery cid, queryParams cid)
      in case getDB c of
           Inl e \<Rightarrow> ([], failed)
         | Inr db \<Rightarrow>
        (case getAll_ProtocolRow c db (fst r1) (snd r1) of
           Inl e \<Rightarrow> ([r1], failed)
         | Inr protocols \<Rightarrow>
        (case getAll_PortRow c db (fst r2) (snd r2) of
           Inl e \<Rightarrow> ([r1, r2], failed)
         | Inr ports' \<Rightarrow>
        (case getAll_TalkerRow c db (fst r3) (snd r3) of
           Inl e \<Rightarrow> ([r1, r2, r3], failed)
         | Inr talkers \<Rightarrow>
        (case getAll_DNSRow c db (fst r4) (snd r4) of
           Inl e \<Rightarrow> ([r1, r2, r3, r4], failed)
         | Inr dnsDomains \<Rightarrow>
        (case getAll_DestRow c db (fst r5) (snd r5) of
           Inl e \<Rightarrow> ([r1, r2, r3, r4, r5], failed)
         | Inr destinations \<Rightarrow>
        (case buildCategories ports' of
           Inl e \<Rightarrow> ([r1, r2, r3, r4, r5], failed)
         | Inr categories \<Rightarrow>
             ([r1, r2, r3, r4, r5],
              \<lparr>status = 200,
               body = [(''protocols'', JProtocols protocols),
                       (''ports'', JPorts ports'),
                       (''talkers'', JTalkers talkers),
                       (''dnsDomains'', JDomains dnsDomains),
                       (''destinations'', JDestinations destinations),
                       (''categories'', JCategories categories)]\<rparr>))))))))"

text \<open>
  The \<^verbatim>\<open>LIMIT\<close> clause at the end of a SQL text, if it has one: the trailing decimal digits
  after \<^verbatim>\<open> LIMIT \<close>.
\<close>

definition limit_of :: "string \<Rightarrow> nat option" where
  "limit_of q =
     (let ds = rev (takeWhile (\<lambda>c. digitValue 10 c \<noteq> None) (rev q));
          front = rev (dropWhile (\<lambda>c. digitValue 10 c \<noteq> None) (rev q))
      in if ds \<noteq> [] \<and> suffix '' LIMIT '' front
         then Some (foldl (\<lambda>a c. case digitValue 10 c of None \<Rightarrow> a | Some d \<Rightarrow> a * 10 + d) 0 ds)
         else None)"

text \<open>
  A store honours the \<^verbatim>\<open>LIMIT\<close> clause when no read returns more rows than the clause of
  its SQL text allows.
\<close>

definition honours_limit :: "'db client \<Rightarrow> bool" where
  "honours_limit c =
     (\<forall>db q ps n. limit_of q = Some n \<longrightarrow>
        (\<forall>rows. getAll_ProtocolRow c db q ps = Inr rows \<longrightarrow> length rows \<le> n) \<and>
        (\<forall>rows. getAll_PortRow c db q ps = Inr rows \<longrightarrow> length rows \<le> n) \<and>
        (\<forall>rows. getAll_TalkerRow c db q ps = Inr rows \<longrightarrow> length rows \<le> n) \<and>
        (\<forall>rows. getAll_DNSRow c db q ps = Inr rows \<longrightarrow> length rows \<le> n) \<and>
        (\<forall>rows. getAll_DestRow c db q ps = Inr rows \<longrightarrow> length rows \<le> n))"

section \<open>Vocabulary of the statements\<close>

text \<open>The category the classifier gives to a port row (line 205 of the handler).\<close>

definition category_of :: "PortRow \<Rightarrow> string" where
  "category_of p = Classification.category (categorizePort (PortRow.port p))"

text \<open>The entry the loop pushes for a port row (lines 217 to 221).\<close>

definition entry_of :: "PortRow \<Rightarrow> PortEntry" where
  "entry_of p =
     \<lparr>PortEntry.port = PortRow.port p,
      service = Classification.service (categorizePort (PortRow.port p)),
      count = PortRow.count p\<rparr>"

text \<open>The rows of a list that the classifier puts into category \<open>k\<close>, in the order of the list.\<close>

definition rows_of :: "string \<Rightarrow> PortRow list \<Rightarrow> PortRow list" where
  "rows_of k rows = filter (\<lambda>p. category_of p = k) rows"

text \<open>The position in a list of rows of the first row that falls into category \<open>k\<close>.\<close>

definition first_pos :: "PortRow list \<Rightarrow> string \<Rightarrow> nat" where
  "first_pos rows k = length (takeWhile (\<lambda>p. category_of p \<noteq> k) rows)"

text \<open>The distinct elements of a list, in the order of their first occurrence.\<close>

definition first_seen :: "'a list \<Rightarrow> 'a list" where
  "first_seen xs = rev (remdups (rev xs))"

text \<open>The summary that the loop has built for category \<open>k\<close> once it has read \<open>rows\<close>.\<close>

definition summary_of :: "PortRow list \<Rightarrow> string \<Rightarrow> CategorySummary" where
  "summary_of rows k =
     \<lparr>CategorySummary.category = k,
      count = foldl js_add 0 (map PortRow.count (rows_of k rows)),
      ports = map entry_of (rows_of k rows)\<rparr>"


section \<open>Sample inputs\<close>

text \<open>Three port rows: two web ports and one remote access port.\<close>

definition scenario_A :: "PortRow list" where
  "scenario_A =
     [\<lparr>PortRow.port = 80, protocol = ''TCP'', count = 100\<rparr>,
      \<lparr>PortRow.port = 443, protocol = ''TCP'', count = 50\<rparr>,
      \<lparr>PortRow.port = 22, protocol = ''TCP'', count = 30\<rparr>]"

text \<open>
  Eight port rows: six unlisted registered ports with repeated counts, which add up to 32,
  and two remote access ports, which add up to 32 as well.
\<close>

definition tied_rows :: "PortRow list" where
  "tied_rows =
     [\<lparr>PortRow.port = 8081, protocol = ''TCP'', count = 5\<rparr>,
      \<lparr>PortRow.port = 22, protocol = ''TCP'', count = 9\<rparr>,
      \<lparr>PortRow.port = 8082, protocol = ''TCP'', count = 7\<rparr>,
      \<lparr>PortRow.port = 8083, protocol = ''TCP'', count = 5\<rparr>,
      \<lparr>PortRow.port = 8084, protocol = ''TCP'', count = 7\<rparr>,
      \<lparr>PortRow.port = 8085, protocol = ''TCP'', count = 1\<rparr>,
      \<lparr>PortRow.port = 8086, protocol = ''TCP'', count = 7\<rparr>,
      \<lparr>PortRow.port = 23, protocol = ''TCP'', count = 23\<rparr>]"

text \<open>
  Three web port rows, the first with the count \<open>2\<^sup>5\<^sup>3\<close>, and the one category that stands
  for what the builder makes of them.
\<close>

definition big_rows :: "PortRow list" where
  "big_rows =
     [\<lparr>PortRow.port = 80, protocol = ''TCP'', count = 9007199254740992\<rparr>,
      \<lparr>PortRow.port = 443, protocol = ''TCP'', count = 1\<rparr>,
      \<lparr>PortRow.port = 8080, protocol = ''TCP'', count = 1\<rparr>]"

definition big_categories :: "CategorySummary list" where
  "big_categories =
     [\<lparr>CategorySummary.category = ''Web'', count = 9007199254740992,
       ports = [\<lparr>PortEntry.port = 80, service = ''HTTP'', count = 9007199254740992\<rparr>,
                \<lparr>PortEntry.port = 443, service = ''HTTPS'', count = 1\<rparr>,
                \<lparr>PortEntry.port = 8080, service = ''HTTP Proxy'', count = 1\<rparr>]\<rparr>]"

text \<open>Five named items with counts, two pairs of them tied.\<close>

definition tied_items :: "(string \<times> int) list" where
  "tied_items = [(''a'', 5), (''b'', 7), (''c'', 5), (''d'', 7), (''e'', 1)]"

text \<open>
  A store with one capture, number 1. A read with no parameter spans all captures, a read
  for capture 1 finds the rows, a read for anything else (\<^verbatim>\<open>NaN\<close> too) finds none; the
  \<^verbatim>\<open>LIMIT\<close> clause of the SQL text cuts the result.
\<close>

definition scoped :: "js_number list \<Rightarrow> 'a list \<Rightarrow> 'a list" where
  "scoped ps rows = (if ps = [] \<or> ps = [Number 1] then rows else [])"

definition limited :: "string \<Rightarrow> 'a list \<Rightarrow> 'a list" where
  "limited q rows = (case limit_of q of None \<Rightarrow> rows | Some n \<Rightarrow> take n rows)"

definition sample_client :: "unit client" where
  "sample_client =
     \<lparr>getDB = Inr (),
      getAll_ProtocolRow = (\<lambda>db q ps. Inr (limited q (scoped ps
         [\<lparr>ProtocolRow.protocol = ''TCP'', count = 180\<rparr>]))),
      getAll_PortRow = (\<lambda>db q ps. Inr (limited q (scoped ps scenario_A))),
      getAll_TalkerRow = (\<lambda>db q ps. Inr (limited q (scoped ps
         [\<lparr>ip = ''10.0.0.5'', bytes_sent = 1000, bytes_received = 2000,
           packets_sent = 10, packets_received = 20\<rparr>,
          \<lparr>ip = ''10.0.0.9'', bytes_sent = 500, bytes_received = 500,
           packets_sent = 5, packets_received = 5\<rparr>]))),
      getAll_DNSRow = (\<lambda>db q ps. Inr (limited q (scoped ps
         [\<lparr>domain = ''example.com'', query_count = 4\<rparr>]))),
      getAll_DestRow = (\<lambda>db q ps. Inr (limited q (scoped ps
         [\<lparr>address = ''93.184.216.34'', connection_count = 2, bytes_total = 4096\<rparr>])))\<rparr>"

text \<open>The same store when the read of the talkers throws.\<close>

definition broken_client :: "unit client" where
  "broken_client =
     sample_client\<lparr>getAll_TalkerRow := (\<lambda>db q ps. Inl (Thrown ''database is locked''))\<rparr>"

text \<open>Twenty-five port rows on ports 8000 to 8024.\<close>

definition many_rows :: "PortRow list" where
  "many_rows =
     map (\<lambda>i. \<lparr>PortRow.port = 8000 + int i, protocol = ''TCP'', count = 100 - int i\<rparr>)
       [0..<25]"

text \<open>The same store with these port rows.\<close>

definition busy_client :: "unit client" where
  "busy_client =
     sample_client\<lparr>getAll_PortRow := (\<lambda>db q ps. Inr (limited q (scoped ps many_rows)))\<rparr>"

text \<open>A store that returns these port rows whatever the SQL text says.\<close>

definition lax_client :: "unit client" where
  "lax_client = sample_client\<lparr>getAll_PortRow := (\<lambda>db q ps. Inr many_rows)\<rparr>"

text \<open>A store without rows.\<close>

definition empty_client :: "unit client" where
  "empty_client =
     \<lparr>getDB = Inr (),
      getAll_ProtocolRow = (\<lambda>db q ps. Inr []),
      getAll_PortRow = (\<lambda>db q ps. Inr []),
      getAll_TalkerRow = (\<lambda>db q ps. Inr []),
      getAll_DNSRow = (\<lambda>db q ps. Inr []),
      getAll_DestRow = (\<lambda>db q ps. Inr [])\<rparr>"


section \<open>Facts about numbers\<close>

lemma ulp_of_small: "m < 2 ^ 53 \<Longrightarrow> ulp_of m = 1"
  by (subst ulp_of.simps) simp

lemma ulp_of_large: "2 ^ 53 \<le> m \<Longrightarrow> ulp_of m = 2 * ulp_of (m div 2)"
  by (subst ulp_of.simps) simp

lemma ulp_of_pos: "0 < ulp_of m"
  by (induction m rule: ulp_of.induct) (subst ulp_of.simps, simp)

lemma round_mag_small: "m < 2 ^ 53 \<Longrightarrow> round_mag m = m"
  by (simp add: round_mag_def ulp_of_small)

lemma div_ulp_of_large: "2 ^ 53 \<le> v \<Longrightarrow> 2 ^ 52 \<le> v div ulp_of v \<and> 2 \<le> ulp_of v"
proof (induction v rule: ulp_of.induct)
  case (1 m)
  show ?case
  proof (cases "m div 2 < 2 ^ 53")
    case True
    have "(2 :: nat) ^ 52 \<le> m div 2" using "1.prems" by simp
    with True "1.prems" show ?thesis
      by (simp add: ulp_of_large ulp_of_small)
  next
    case False
    then have "2 ^ 53 \<le> m div 2" by simp
    with "1.IH" "1.prems" have "2 ^ 52 \<le> (m div 2) div ulp_of (m div 2)" by simp
    moreover have "m div (2 * ulp_of (m div 2)) = (m div 2) div ulp_of (m div 2)"
      by (simp add: div_mult2_eq)
    moreover have "0 < ulp_of (m div 2)" by (rule ulp_of_pos)
    ultimately show ?thesis using "1.prems" by (simp add: ulp_of_large)
  qed
qed

lemma round_mag_large: "2 ^ 53 \<le> v \<Longrightarrow> 2 ^ 53 \<le> round_mag v"
proof -
  assume v: "2 ^ 53 \<le> v"
  let ?u = "ulp_of v" and ?q = "v div ulp_of v"
  from div_ulp_of_large[OF v] have q: "2 ^ 52 \<le> ?q" and u: "2 \<le> ?u" by simp_all
  have "(2 :: nat) ^ 53 = 2 ^ 52 * 2" by simp
  also have "\<dots> \<le> ?q * ?u" using q u by (rule mult_le_mono)
  finally have low: "2 ^ 53 \<le> ?q * ?u" .
  have "?q * ?u \<le> (?q + 1) * ?u" by simp
  with low have "2 ^ 53 \<le> (?q + 1) * ?u" by (rule order_trans)
  with low show ?thesis by (simp add: round_mag_def Let_def)
qed

lemma shortest_small: "m < 2 ^ 53 \<Longrightarrow> shortest m e = m"
proof (induction e)
  case 0
  then show ?case by simp
next
  case (Suc e)
  define p :: nat where "p = 10 ^ Suc e"
  define lo where "lo = m div p * p"
  define hi where "hi = lo + p"
  have ppos: "0 < p" by (simp add: p_def)
  have lo_le: "lo \<le> m" by (simp add: lo_def)
  have "m = lo + m mod p" by (simp add: lo_def)
  moreover have "m mod p < p" using ppos by simp
  ultimately have hi_gt: "m < hi" unfolding hi_def by linarith
  have "lo < 2 ^ 53" using lo_le Suc.prems by (rule le_less_trans)
  then have lo: "round_mag lo = lo" by (rule round_mag_small)
  have hi: "round_mag hi \<noteq> m"
  proof (cases "hi < 2 ^ 53")
    case True
    then have "round_mag hi = hi" by (rule round_mag_small)
    with hi_gt show ?thesis by simp
  next
    case False
    then have "2 ^ 53 \<le> hi" by simp
    then have "2 ^ 53 \<le> round_mag hi" by (rule round_mag_large)
    with Suc.prems show ?thesis by simp
  qed
  have "shortest m (Suc e) =
        (if round_mag lo = m \<and> round_mag hi = m
           then (if m - lo < hi - m then lo
                 else if hi - m < m - lo then hi
                 else if even (m div p) then lo else hi)
         else if round_mag lo = m then lo
         else if round_mag hi = m then hi
         else shortest m e)"
    unfolding shortest.simps Let_def p_def lo_def hi_def ..
  also have "\<dots> = m" using lo hi Suc.IH[OF Suc.prems] by simp
  finally show ?case .
qed

lemma show_magnitude_small: "m < 2 ^ 53 \<Longrightarrow> show_magnitude m = show_nat m"
proof -
  assume m: "m < 2 ^ 53"
  have "(2 :: nat) ^ 53 < 2 ^ 1024" by (rule power_strict_increasing) simp_all
  with m have a: "\<not> 2 ^ 1024 \<le> m" by simp
  have "(2 :: nat) ^ 53 < 10 ^ 21" by simp
  with m have b: "m < 10 ^ 21" by simp
  show ?thesis unfolding show_magnitude_def Let_def shortest_small[OF m] using a b by simp
qed

lemma show_int_small:
  "\<bar>i\<bar> < 2 ^ 53 \<Longrightarrow>
   show_int i = (if i < 0 then ''-'' @ show_nat (nat (- i)) else show_nat (nat i))"
proof -
  assume i: "\<bar>i\<bar> < 2 ^ 53"
  then have "nat (- i) < 2 ^ 53" and "nat i < 2 ^ 53" by (simp_all add: nat_less_iff)
  then show ?thesis by (simp add: show_int_def show_magnitude_small)
qed

lemma number_value_small: "\<bar>n\<bar> < 2 ^ 53 \<Longrightarrow> number_value n = n"
proof -
  assume n: "\<bar>n\<bar> < 2 ^ 53"
  then have a: "nat (- n) < 2 ^ 53" and b: "nat n < 2 ^ 53" by (simp_all add: nat_less_iff)
  have big: "(2 :: int) ^ 53 < 2 ^ 1024" by (rule power_strict_increasing) simp_all
  from n big have "n < 2 ^ 1024" and "- (2 ^ 1024) < n" by linarith+
  then show ?thesis
    by (simp add: number_value_def Let_def round_mag_small[OF a] round_mag_small[OF b])
qed

lemma js_add_exact: "\<bar>a\<bar> < 2 ^ 53 \<Longrightarrow> \<bar>a + b\<bar> < 2 ^ 53 \<Longrightarrow> js_add a b = a + b"
proof -
  assume a: "\<bar>a\<bar> < 2 ^ 53" and s: "\<bar>a + b\<bar> < 2 ^ 53"
  have big: "(2 :: int) ^ 53 < 2 ^ 1024" by (rule power_strict_increasing) simp_all
  from a big have "\<not> (a \<ge> 2 ^ 1024 \<or> a \<le> - (2 ^ 1024))" by linarith
  then show ?thesis by (simp add: js_add_def number_value_small[OF s])
qed

lemma foldl_js_add_exact:
  "sum_list (map abs xs) < 2 ^ 53 \<Longrightarrow> foldl js_add 0 xs = sum_list xs"
proof (induction xs rule: rev_induct)
  case Nil
  then show ?case by simp
next
  case (snoc x xs)
  have nonneg: "0 \<le> sum_list (map abs xs)" by (rule sum_list_nonneg) auto
  from snoc.prems have pre: "sum_list (map abs xs) < 2 ^ 53" by simp
  then have ih: "foldl js_add 0 xs = sum_list xs" by (rule snoc.IH)
  have bound: "\<bar>sum_list xs\<bar> \<le> sum_list (map abs xs)" by (rule sum_list_abs)
  have "\<bar>sum_list xs + x\<bar> \<le> sum_list (map abs xs) + \<bar>x\<bar>" using bound by linarith
  with snoc.prems have s: "\<bar>sum_list xs + x\<bar> < 2 ^ 53" by simp
  from bound pre have a: "\<bar>sum_list xs\<bar> < 2 ^ 53" by linarith
  show ?case by (simp add: ih js_add_exact[OF a s])
qed

lemma sum_list_abs_filter:
  "sum_list (map (\<lambda>x. \<bar>f x\<bar>) (filter P xs)) \<le> sum_list (map (\<lambda>x. \<bar>f x :: int\<bar>) xs)"
  by (induction xs) auto

lemma js_add_at_2_53: "js_add 9007199254740992 1 = 9007199254740992"
proof -
  have u: "ulp_of 9007199254740993 = 2" by (simp add: ulp_of_large ulp_of_small)
  have r: "round_mag 9007199254740993 = 9007199254740992" by (simp add: round_mag_def u)
  have big: "(9007199254740992 :: int) < 2 ^ 1024"
    using power_strict_increasing[of 53 1024 "2 :: int"] by simp
  show ?thesis using big by (simp add: js_add_def number_value_def r)
qed

section \<open>Facts about the port table and the decimal rendering\<close>

lemma show_nat_small: "n < 10 \<Longrightarrow> show_nat n = [digit_char n]"
  by (subst show_nat.simps) simp

lemma show_nat_large:
  "10 \<le> n \<Longrightarrow> show_nat n = show_nat (n div 10) @ [digit_char (n mod 10)]"
  by (subst show_nat.simps) simp

lemmas show_int_eval = show_int_small show_nat_small show_nat_large digit_char_def

lemma table_keys: "\<forall>kv \<in> set portCategories. 21 \<le> fst kv \<and> fst kv \<le> 27017"
  by (simp add: portCategories_def)

lemma table_categories:
  "\<forall>kv \<in> set portCategories. Classification.category (snd kv) \<in>
     {''Web'', ''Database'', ''Email'', ''File Sharing'', ''Remote Access'', ''DNS'',
      ''Network'', ''Streaming'', ''VoIP'', ''Messaging'', ''Discovery''}"
  by (simp add: portCategories_def)

lemma lookup_range: "map_of portCategories p = Some e \<Longrightarrow> 21 \<le> p \<and> p \<le> 27017"
  using table_keys by (auto dest!: map_of_SomeD)

lemma lookup_outside: "p < 21 \<or> 27017 < p \<Longrightarrow> map_of portCategories p = None"
  using lookup_range[of p] by (cases "map_of portCategories p") auto

lemma lookup_category:
  assumes "map_of portCategories p = Some e"
  shows "Classification.category e \<in>
     {''Web'', ''Database'', ''Email'', ''File Sharing'', ''Remote Access'', ''DNS'',
      ''Network'', ''Streaming'', ''VoIP'', ''Messaging'', ''Discovery''}"
proof -
  from assms have "(p, e) \<in> set portCategories" by (rule map_of_SomeD)
  with table_categories show ?thesis by fastforce
qed

lemma categorizePort_category:
  "Classification.category (categorizePort p) \<in>
     {''Web'', ''Database'', ''Email'', ''File Sharing'', ''Remote Access'', ''DNS'',
      ''Network'', ''Streaming'', ''VoIP'', ''Messaging'', ''Discovery'',
      ''Application'', ''Ephemeral'', ''Other''}"
proof (cases "map_of portCategories p")
  case None
  then show ?thesis by (simp add: categorizePort_def)
next
  case (Some e)
  from lookup_category[OF Some] Some show ?thesis
    by (simp add: categorizePort_def) blast
qed

text \<open>
  C2. On every port from 0 to 65535 the classifier returns the table entry verbatim when the
  table has one; otherwise a port from 1024 to 49151 is \<open>Application\<close>, a port from 49152 is
  \<open>Ephemeral\<close> and every remaining port is \<open>Other\<close>, each labelled \<open>Port n\<close>. Exactly one of the
  four branches applies, and the category is one of the eleven table categories or one of
  the three fallback categories.
\<close>

theorem categorizePort_classifies:
  assumes "0 \<le> p" and "p \<le> 65535"
  shows "(\<forall>e. map_of portCategories p = Some e \<longrightarrow> categorizePort p = e) \<and>
    (map_of portCategories p = None \<and> 1024 \<le> p \<and> p \<le> 49151 \<longrightarrow>
       categorizePort p =
         \<lparr>Classification.category = ''Application'', service = ''Port '' @ show_int p\<rparr>) \<and>
    (map_of portCategories p = None \<and> 49152 \<le> p \<longrightarrow>
       categorizePort p =
         \<lparr>Classification.category = ''Ephemeral'', service = ''Port '' @ show_int p\<rparr>) \<and>
    (map_of portCategories p = None \<and> p < 1024 \<longrightarrow>
       categorizePort p =
         \<lparr>Classification.category = ''Other'', service = ''Port '' @ show_int p\<rparr>) \<and>
    length (filter id
      [map_of portCategories p \<noteq> None,
       map_of portCategories p = None \<and> 1024 \<le> p \<and> p \<le> 49151,
       map_of portCategories p = None \<and> 49152 \<le> p,
       map_of portCategories p = None \<and> p < 1024]) = 1 \<and>
    Classification.category (categorizePort p) \<in>
     {''Web'', ''Database'', ''Email'', ''File Sharing'', ''Remote Access'', ''DNS'',
      ''Network'', ''Streaming'', ''VoIP'', ''Messaging'', ''Discovery'',
      ''Application'', ''Ephemeral'', ''Other''}"
proof -
  have branches: "length (filter id
      [map_of portCategories p \<noteq> None,
       map_of portCategories p = None \<and> 1024 \<le> p \<and> p \<le> 49151,
       map_of portCategories p = None \<and> 49152 \<le> p,
       map_of portCategories p = None \<and> p < 1024]) = 1"
    by (cases "map_of portCategories p") auto
  show ?thesis
    using branches categorizePort_category[of p] by (simp add: categorizePort_def)
qed

theorem categorizePort_classifies_witness:
  "(0 :: int) \<le> 54321 \<and> (54321 :: int) \<le> 65535 \<and>
   map_of portCategories 54321 = None \<and>
   categorizePort 54321 =
     \<lparr>Classification.category = ''Ephemeral'', service = ''Port 54321''\<rparr> \<and>
   map_of portCategories 80 = Some \<lparr>Classification.category = ''Web'', service = ''HTTP''\<rparr> \<and>
   categorizePort 80 = \<lparr>Classification.category = ''Web'', service = ''HTTP''\<rparr>"
proof -
  have none: "map_of portCategories 54321 = None" by (simp add: lookup_outside)
  have some: "map_of portCategories 80 =
      Some \<lparr>Classification.category = ''Web'', service = ''HTTP''\<rparr>"
    by (simp add: portCategories_def)
  have label: "show_int 54321 = ''54321''" by (simp add: show_int_eval)
  show ?thesis
    using categorizePort_classifies[of 54321] categorizePort_classifies[of 80] none some label
    by simp
qed

text \<open>
  C9. Outside the port range the classifier still answers: every negative number is \<open>Other\<close>
  and every number above 65535 is \<open>Ephemeral\<close>, labelled \<open>Port n\<close>; whatever the integer, the
  category is one of the fourteen.
\<close>

theorem categorizePort_outside_range:
  "(p < 0 \<longrightarrow> categorizePort p =
      \<lparr>Classification.category = ''Other'', service = ''Port '' @ show_int p\<rparr>) \<and>
   (65535 < p \<longrightarrow> categorizePort p =
      \<lparr>Classification.category = ''Ephemeral'', service = ''Port '' @ show_int p\<rparr>) \<and>
   Classification.category (categorizePort p) \<in>
     {''Web'', ''Database'', ''Email'', ''File Sharing'', ''Remote Access'', ''DNS'',
      ''Network'', ''Streaming'', ''VoIP'', ''Messaging'', ''Discovery'',
      ''Application'', ''Ephemeral'', ''Other''}"
  using categorizePort_category[of p] by (auto simp: categorizePort_def lookup_outside)

theorem categorizePort_outside_range_witness:
  "categorizePort (- 1) = \<lparr>Classification.category = ''Other'', service = ''Port -1''\<rparr> \<and>
   categorizePort 70000 = \<lparr>Classification.category = ''Ephemeral'', service = ''Port 70000''\<rparr>"
proof -
  have l1: "show_int (- 1) = ''-1''" by (simp add: show_int_eval)
  have l2: "show_int 70000 = ''70000''" by (simp add: show_int_eval)
  show ?thesis
    using categorizePort_outside_range[of "- 1"] categorizePort_outside_range[of 70000] l1 l2
    by simp
qed


section \<open>Facts about the accumulation loop\<close>

lemma sort_array_sort_key: "sort_array (by_count_desc cnt) xs = sort_key (\<lambda>x. - cnt x) xs"
proof -
  have "insert_sorted (by_count_desc cnt) x ys = insort_key (\<lambda>x. - cnt x) x ys" for x ys
    by (induction ys) (auto simp: by_count_desc_def)
  then have "insert_sorted (by_count_desc cnt) = insort_key (\<lambda>x. - cnt x)" by (intro ext)
  then show ?thesis by (simp add: sort_array_def sort_key_def)
qed

lemma accumulate_snoc:
  "accumulate m (rows @ [p]) =
     (case accumulate m rows of Inl e \<Rightarrow> Inl e | Inr m' \<Rightarrow> accumulate_step m' p)"
  by (induction rows arbitrary: m) (auto split: sum.splits)

lemma first_seen_Nil: "first_seen [] = []"
  by (simp add: first_seen_def)

lemma first_seen_snoc:
  "first_seen (xs @ [x]) = (if x \<in> set xs then first_seen xs else first_seen xs @ [x])"
  by (simp add: first_seen_def)

lemma set_first_seen: "set (first_seen xs) = set xs"
  by (simp add: first_seen_def)

lemma distinct_first_seen: "distinct (first_seen xs)"
  by (simp add: first_seen_def)

lemma map_of_keyed:
  "map_of (map (\<lambda>k. (k, f k)) ks) k = (if k \<in> set ks then Some (f k) else None)"
  by (induction ks) auto

lemma update_keyed_absent:
  "k \<notin> set ks \<Longrightarrow> AList.update k v (map (\<lambda>k. (k, f k)) ks) = map (\<lambda>k. (k, f k)) ks @ [(k, v)]"
  by (induction ks) auto

lemma update_keyed_last:
  "k \<notin> set ks \<Longrightarrow>
   AList.update k v (map (\<lambda>k. (k, f k)) ks @ [(k, w)]) = map (\<lambda>k. (k, f k)) ks @ [(k, v)]"
  by (induction ks) auto

lemma update_keyed_present:
  "k \<in> set ks \<Longrightarrow> distinct ks \<Longrightarrow>
   AList.update k v (map (\<lambda>k. (k, f k)) ks) = map (\<lambda>k'. (k', if k' = k then v else f k')) ks"
proof (induction ks)
  case Nil
  then show ?case by simp
next
  case (Cons a ks)
  show ?case
  proof (cases "a = k")
    case True
    with Cons.prems have "k \<notin> set ks" by simp
    then have "map (\<lambda>k'. (k', if k' = k then v else f k')) ks = map (\<lambda>k. (k, f k)) ks"
      by (intro map_cong) auto
    with True show ?thesis by simp
  next
    case False
    with Cons show ?thesis by simp
  qed
qed

lemma rows_of_snoc:
  "rows_of k (rows @ [p]) = (if category_of p = k then rows_of k rows @ [p] else rows_of k rows)"
  by (simp add: rows_of_def)

lemma summary_of_other:
  "category_of p \<noteq> k \<Longrightarrow> summary_of (rows @ [p]) k = summary_of rows k"
  by (simp add: summary_of_def rows_of_snoc)

lemma rows_of_absent: "k \<notin> set (map category_of rows) \<Longrightarrow> rows_of k rows = []"
  by (auto simp: rows_of_def filter_empty_conv)

lemma map_of_keyed_last:
  "k \<notin> set ks \<Longrightarrow> map_of (map (\<lambda>k. (k, f k)) ks @ [(k, v)]) k = Some v"
  by (induction ks) auto

lemma accumulate_step_closed:
  "accumulate_step (map (\<lambda>k. (k, summary_of rows k)) (first_seen (map category_of rows))) p =
   Inr (map (\<lambda>k. (k, summary_of (rows @ [p]) k)) (first_seen (map category_of (rows @ [p]))))"
proof -
  let ?ks = "first_seen (map category_of rows)"
  let ?k = "category_of p"
  let ?M = "map (\<lambda>k. (k, summary_of rows k)) ?ks"
  let ?e = "\<lparr>PortEntry.port = PortRow.port p,
             service = Classification.service (categorizePort (PortRow.port p)),
             count = PortRow.count p\<rparr>"
  have k: "Classification.category (categorizePort (PortRow.port p)) = ?k"
    by (simp add: category_of_def)
  show ?thesis
  proof (cases "?k \<in> set (map category_of rows)")
    case True
    then have in_ks: "?k \<in> set ?ks" by (simp add: set_first_seen)
    have has: "Map_has ?M ?k" by (simp add: Map_has_def map_of_keyed in_ks)
    have get: "Map_get ?M ?k = Some (summary_of rows ?k)"
      by (simp add: Map_get_def map_of_keyed in_ks)
    have new: "(summary_of rows ?k)\<lparr>CategorySummary.count :=
                  js_add (CategorySummary.count (summary_of rows ?k)) (PortRow.count p),
                ports := ports (summary_of rows ?k) @ [?e]\<rparr> = summary_of (rows @ [p]) ?k"
      by (simp add: summary_of_def rows_of_snoc entry_of_def)
    have step: "accumulate_step ?M p = Inr (Map_set ?M ?k (summary_of (rows @ [p]) ?k))"
      unfolding accumulate_step_def Let_def k using has get new by simp
    have "Map_set ?M ?k (summary_of (rows @ [p]) ?k) =
          map (\<lambda>k'. (k', if k' = ?k then summary_of (rows @ [p]) ?k else summary_of rows k')) ?ks"
      unfolding Map_set_def using in_ks distinct_first_seen by (rule update_keyed_present)
    also have "\<dots> = map (\<lambda>k. (k, summary_of (rows @ [p]) k)) ?ks"
      by (intro map_cong) (auto simp: summary_of_other)
    finally have upd: "Map_set ?M ?k (summary_of (rows @ [p]) ?k) =
          map (\<lambda>k. (k, summary_of (rows @ [p]) k)) ?ks" .
    have fs: "first_seen (map category_of (rows @ [p])) = ?ks"
      using True by (simp add: first_seen_snoc)
    show ?thesis by (simp only: fs step upd)
  next
    case False
    then have out_ks: "?k \<notin> set ?ks" by (simp add: set_first_seen)
    let ?fresh = "\<lparr>CategorySummary.category = ?k, count = 0, ports = []\<rparr>"
    have empty: "rows_of ?k rows = []" using False by (rule rows_of_absent)
    have has: "\<not> Map_has ?M ?k" by (simp add: Map_has_def map_of_keyed out_ks)
    have m1: "Map_set ?M ?k ?fresh = ?M @ [(?k, ?fresh)]"
      unfolding Map_set_def using out_ks by (rule update_keyed_absent)
    have get: "Map_get (?M @ [(?k, ?fresh)]) ?k = Some ?fresh"
      unfolding Map_get_def using out_ks by (rule map_of_keyed_last)
    have new: "?fresh\<lparr>CategorySummary.count := js_add (CategorySummary.count ?fresh) (PortRow.count p),
                ports := ports ?fresh @ [?e]\<rparr> = summary_of (rows @ [p]) ?k"
      by (simp add: summary_of_def rows_of_snoc entry_of_def empty)
    have step: "accumulate_step ?M p =
                Inr (Map_set (?M @ [(?k, ?fresh)]) ?k (summary_of (rows @ [p]) ?k))"
      unfolding accumulate_step_def Let_def k using has m1 get new by simp
    have upd: "Map_set (?M @ [(?k, ?fresh)]) ?k (summary_of (rows @ [p]) ?k) =
          ?M @ [(?k, summary_of (rows @ [p]) ?k)]"
      unfolding Map_set_def using out_ks by (rule update_keyed_last)
    have keep: "?M = map (\<lambda>k. (k, summary_of (rows @ [p]) k)) ?ks"
    proof (intro map_cong refl)
      fix x assume "x \<in> set ?ks"
      with out_ks have "category_of p \<noteq> x" by auto
      then show "(x, summary_of rows x) = (x, summary_of (rows @ [p]) x)"
        by (simp add: summary_of_other)
    qed
    have fs: "first_seen (map category_of (rows @ [p])) = ?ks @ [?k]"
      using False by (simp add: first_seen_snoc)
    have "map (\<lambda>k. (k, summary_of (rows @ [p]) k)) (?ks @ [?k]) =
          ?M @ [(?k, summary_of (rows @ [p]) ?k)]"
      using keep by simp
    then show ?thesis by (simp only: fs step upd)
  qed
qed

lemma accumulate_closed:
  "accumulate [] rows = Inr (map (\<lambda>k. (k, summary_of rows k)) (first_seen (map category_of rows)))"
proof (induction rows rule: rev_induct)
  case Nil
  then show ?case by (simp add: first_seen_Nil)
next
  case (snoc p rows)
  then show ?case by (simp add: accumulate_snoc accumulate_step_closed)
qed

lemma buildCategories_closed:
  "buildCategories rows =
     Inr (rank_categories (map (summary_of rows) (first_seen (map category_of rows))))"
  by (simp add: buildCategories_def accumulate_closed Map_values_def comp_def)


section \<open>Sorting facts\<close>

lemma set_sort_array: "set (sort_array (by_count_desc cnt) xs) = set xs"
  by (simp add: sort_array_sort_key)

lemma mset_sort_array: "mset (sort_array (by_count_desc cnt) xs) = mset xs"
  by (simp add: sort_array_sort_key)

lemma sort_array_desc:
  "sorted_wrt (\<lambda>a b. cnt a \<ge> cnt b) (sort_array (by_count_desc cnt) xs)"
proof -
  have "sorted (map (\<lambda>x. - cnt x) (sort_key (\<lambda>x. - cnt x) xs))"
    by (rule sorted_sort_key)
  then show ?thesis
    by (simp add: sort_array_sort_key sorted_map)
qed

lemma sort_array_stable:
  "filter (\<lambda>x. cnt x = k) (sort_array (by_count_desc cnt) xs) = filter (\<lambda>x. cnt x = k) xs"
proof -
  have "filter (\<lambda>y. - cnt y = - k) (sort_key (\<lambda>x. - cnt x) xs) = filter (\<lambda>y. - cnt y = - k) xs"
    by (rule sort_key_stable)
  then show ?thesis by (simp add: sort_array_sort_key)
qed

lemma sort_array_sorted_id:
  "sorted_wrt (\<lambda>a b. cnt a \<ge> cnt b) xs \<Longrightarrow> sort_array (by_count_desc cnt) xs = xs"
proof -
  assume "sorted_wrt (\<lambda>a b. cnt a \<ge> cnt b) xs"
  then have "sorted (map (\<lambda>x. - cnt x) xs)" by (simp add: sorted_map)
  then show ?thesis by (simp add: sort_array_sort_key sort_key_id_if_sorted)
qed

lemma insort_key_lex:
  assumes "sorted_wrt (\<lambda>a b. f a < f b \<or> (f a = f b \<and> Q a b)) zs"
    and "\<forall>y \<in> set zs. Q x y"
  shows "sorted_wrt (\<lambda>a b. f a < f b \<or> (f a = f b \<and> Q a b)) (insort_key f x zs)"
  using assms
proof (induction zs)
  case Nil
  then show ?case by simp
next
  case (Cons z zs)
  show ?case
  proof (cases "f x \<le> f z")
    case True
    have "f x < f y \<or> (f x = f y \<and> Q x y)" if "y \<in> set (z # zs)" for y
    proof -
      have "f z \<le> f y" using Cons.prems(1) that by auto
      with True have "f x \<le> f y" by simp
      moreover have "Q x y" using Cons.prems(2) that by auto
      ultimately show ?thesis by auto
    qed
    with True Cons.prems(1) show ?thesis by simp
  next
    case False
    then have "f z < f x" by simp
    moreover have "sorted_wrt (\<lambda>a b. f a < f b \<or> (f a = f b \<and> Q a b)) (insort_key f x zs)"
      using Cons by simp
    ultimately show ?thesis using False Cons.prems(1) by (auto simp: set_insort_key)
  qed
qed

lemma sort_key_lex:
  "sorted_wrt Q xs \<Longrightarrow>
   sorted_wrt (\<lambda>a b. f a < f b \<or> (f a = f b \<and> Q a b)) (sort_key f xs)"
proof (induction xs)
  case Nil
  then show ?case by simp
next
  case (Cons x xs)
  then have "sorted_wrt (\<lambda>a b. f a < f b \<or> (f a = f b \<and> Q a b)) (sort_key f xs)"
    and "\<forall>y \<in> set (sort_key f xs). Q x y" by simp_all
  then show ?case by (simp add: insort_key_lex)
qed

lemma sort_array_lex:
  assumes "sorted_wrt Q xs"
  shows "sorted_wrt (\<lambda>a b. cnt a > cnt b \<or> (cnt a = cnt b \<and> Q a b))
           (sort_array (by_count_desc cnt) xs)"
proof -
  have "sorted_wrt (\<lambda>a b. - cnt a < - cnt b \<or> (- cnt a = - cnt b \<and> Q a b))
          (sort_key (\<lambda>x. - cnt x) xs)"
    using assms by (rule sort_key_lex)
  then show ?thesis by (simp add: sort_array_sort_key)
qed

section \<open>Sums over a partition by key\<close>

lemma sum_list_single_key:
  "distinct ks \<Longrightarrow> k0 \<in> set ks \<Longrightarrow>
   (\<Sum>k\<leftarrow>ks. if k0 = k then c else 0) = (c :: 'b :: comm_monoid_add)"
proof (induction ks)
  case Nil
  then show ?case by simp
next
  case (Cons a ks)
  show ?case
  proof (cases "k0 = a")
    case True
    with Cons.prems have "k0 \<notin> set ks" by simp
    then have "(\<Sum>k\<leftarrow>ks. if k0 = k then c else 0) = (\<Sum>k\<leftarrow>ks. 0)"
      by (intro arg_cong[where f = sum_list] map_cong) auto
    with True show ?thesis by simp
  next
    case False
    with Cons show ?thesis by simp
  qed
qed

lemma sum_list_partition:
  "distinct ks \<Longrightarrow> set (map g xs) \<subseteq> set ks \<Longrightarrow>
   (\<Sum>k\<leftarrow>ks. sum_list (map f (filter (\<lambda>x. g x = k) xs))) =
   (sum_list (map f xs) :: 'b :: comm_monoid_add)"
proof (induction xs)
  case Nil
  then show ?case by simp
next
  case (Cons x xs)
  have "(\<Sum>k\<leftarrow>ks. sum_list (map f (filter (\<lambda>x. g x = k) (x # xs)))) =
        (\<Sum>k\<leftarrow>ks. (if g x = k then f x else 0) + sum_list (map f (filter (\<lambda>x. g x = k) xs)))"
    by (intro arg_cong[where f = sum_list] map_cong) auto
  also have "\<dots> = (\<Sum>k\<leftarrow>ks. if g x = k then f x else 0) +
                  (\<Sum>k\<leftarrow>ks. sum_list (map f (filter (\<lambda>x. g x = k) xs)))"
    by (rule sum_list_addf)
  also have "\<dots> = f x + sum_list (map f xs)"
    using Cons by (simp add: sum_list_single_key)
  finally show ?case by simp
qed

section \<open>The ranked categories\<close>

lemma rank_categories_count:
  "map CategorySummary.count (rank_categories cats) =
   map CategorySummary.count (sort_array (by_count_desc CategorySummary.count) cats)"
  by (simp add: rank_categories_def)

lemma rank_categories_category:
  "map CategorySummary.category (rank_categories cats) =
   map CategorySummary.category (sort_array (by_count_desc CategorySummary.count) cats)"
  by (simp add: rank_categories_def)

lemma rank_categories_member:
  "C \<in> set (rank_categories cats) \<Longrightarrow>
   \<exists>c \<in> set cats. C = c\<lparr>ports := topN PortEntry.count 5 (ports c)\<rparr>"
  by (auto simp: rank_categories_def set_sort_array)

lemma buildCategories_member:
  assumes "buildCategories rows = Inr cats" and "C \<in> set cats"
  shows "CategorySummary.category C \<in> set (map category_of rows)"
    and "CategorySummary.count C =
         foldl js_add 0 (map PortRow.count (rows_of (CategorySummary.category C) rows))"
    and "ports C =
         topN PortEntry.count 5 (map entry_of (rows_of (CategorySummary.category C) rows))"
proof -
  from assms have "C \<in> set (rank_categories (map (summary_of rows) (first_seen (map category_of rows))))"
    by (simp add: buildCategories_closed)
  then obtain k where k: "k \<in> set (first_seen (map category_of rows))"
    and C: "C = (summary_of rows k)\<lparr>ports := topN PortEntry.count 5 (ports (summary_of rows k))\<rparr>"
    by (auto dest!: rank_categories_member)
  have ck: "CategorySummary.category C = k" by (simp add: C summary_of_def)
  show "CategorySummary.category C \<in> set (map category_of rows)"
    using k ck by (simp add: set_first_seen)
  show "CategorySummary.count C =
         foldl js_add 0 (map PortRow.count (rows_of (CategorySummary.category C) rows))"
    unfolding ck by (simp add: C summary_of_def)
  show "ports C =
         topN PortEntry.count 5 (map entry_of (rows_of (CategorySummary.category C) rows))"
    unfolding ck by (simp add: C summary_of_def)
qed

section \<open>Order of first occurrence\<close>

lemma takeWhile_before_member:
  "a \<in> set xs \<Longrightarrow> length (takeWhile (\<lambda>c. c \<noteq> a) xs) < length xs"
  by (induction xs) auto

lemma first_seen_positions:
  "sorted_wrt (\<lambda>a b. length (takeWhile (\<lambda>c. c \<noteq> a) xs) < length (takeWhile (\<lambda>c. c \<noteq> b) xs))
     (first_seen xs)"
proof (induction xs rule: rev_induct)
  case Nil
  then show ?case by (simp add: first_seen_Nil)
next
  case (snoc x xs)
  have old: "takeWhile (\<lambda>c. c \<noteq> a) (xs @ [x]) = takeWhile (\<lambda>c. c \<noteq> a) xs" if "a \<in> set xs" for a
    using that by (intro takeWhile_append1[of a]) auto
  have kept: "sorted_wrt (\<lambda>a b. length (takeWhile (\<lambda>c. c \<noteq> a) (xs @ [x]))
                              < length (takeWhile (\<lambda>c. c \<noteq> b) (xs @ [x]))) (first_seen xs)"
    using snoc by (rule sorted_wrt_mono_rel[rotated]) (simp add: old set_first_seen)
  show ?case
  proof (cases "x \<in> set xs")
    case True
    with kept show ?thesis by (simp add: first_seen_snoc)
  next
    case False
    then have new: "takeWhile (\<lambda>c. c \<noteq> x) (xs @ [x]) = xs"
      by (subst takeWhile_append2) auto
    have "length (takeWhile (\<lambda>c. c \<noteq> a) (xs @ [x])) < length (takeWhile (\<lambda>c. c \<noteq> x) (xs @ [x]))"
      if "a \<in> set xs" for a
      using that by (simp only: old new takeWhile_before_member)
    with kept False show ?thesis
      by (simp add: first_seen_snoc sorted_wrt_append set_first_seen del: takeWhile_append1 takeWhile_append2)
  qed
qed

lemma first_pos_map: "first_pos rows k = length (takeWhile (\<lambda>c. c \<noteq> k) (map category_of rows))"
  by (simp add: first_pos_def takeWhile_map comp_def)

lemma first_seen_first_pos:
  "sorted_wrt (\<lambda>a b. first_pos rows a < first_pos rows b) (first_seen (map category_of rows))"
  unfolding first_pos_map by (rule first_seen_positions)

lemma sum_list_map_perm:
  "mset xs = mset ys \<Longrightarrow> sum_list (map f xs) = (sum_list (map f ys) :: 'b :: comm_monoid_add)"
  by (metis mset_map sum_mset_sum_list)

lemma distinct_one_match:
  "distinct ys \<Longrightarrow> k \<in> set ys \<Longrightarrow> length (filter (\<lambda>y. y = k) ys) = 1"
proof (induction ys)
  case Nil
  then show ?case by simp
next
  case (Cons a ys)
  show ?case
  proof (cases "a = k")
    case True
    with Cons.prems have "k \<notin> set ys" by simp
    then have "filter (\<lambda>y. y = k) ys = []" by (auto simp: filter_empty_conv)
    with True show ?thesis by simp
  next
    case False
    with Cons show ?thesis by simp
  qed
qed

section \<open>The ranking\<close>

lemma sorted_wrt_take_part: "sorted_wrt R xs \<Longrightarrow> sorted_wrt R (take n xs)"
proof -
  assume "sorted_wrt R xs"
  then have "sorted_wrt R (take n xs @ drop n xs)" by simp
  then show ?thesis unfolding sorted_wrt_append by blast
qed

lemma filter_take_prefix: "prefix (filter P (take n xs)) (filter P xs)"
proof -
  have "filter P xs = filter P (take n xs) @ filter P (drop n xs)"
    by (metis append_take_drop_id filter_append)
  then show ?thesis by (rule prefixI)
qed

lemma insort_key_map:
  "insort_key f (g x) (map g ys) = map g (insort_key (\<lambda>y. f (g y)) x ys)"
  by (induction ys) auto

lemma sort_key_map: "sort_key f (map g xs) = map g (sort_key (\<lambda>y. f (g y)) xs)"
  by (induction xs) (simp_all add: insort_key_map)

lemma topN_map: "topN cnt n (map g xs) = map g (topN (\<lambda>y. cnt (g y)) n xs)"
  by (simp add: topN_def sort_array_sort_key sort_key_map take_map)

lemma enumerate_positions: "sorted_wrt (\<lambda>a b. snd a < snd b) (zip xs [0..<length xs])"
proof -
  have "sorted_wrt (<) (map snd (zip xs [0..<length xs]))" by simp
  then show ?thesis by (simp only: sorted_wrt_map)
qed

section \<open>The builder on the sample inputs\<close>

lemma scenario_A_categories:
  "buildCategories scenario_A =
     Inr [\<lparr>CategorySummary.category = ''Web'', count = 150,
           ports = [\<lparr>PortEntry.port = 80, service = ''HTTP'', count = 100\<rparr>,
                    \<lparr>PortEntry.port = 443, service = ''HTTPS'', count = 50\<rparr>]\<rparr>,
          \<lparr>CategorySummary.category = ''Remote Access'', count = 30,
           ports = [\<lparr>PortEntry.port = 22, service = ''SSH'', count = 30\<rparr>]\<rparr>]"
proof -
  have c80: "categorizePort 80 = \<lparr>Classification.category = ''Web'', service = ''HTTP''\<rparr>"
    by (simp add: categorizePort_def portCategories_def)
  have c443: "categorizePort 443 = \<lparr>Classification.category = ''Web'', service = ''HTTPS''\<rparr>"
    by (simp add: categorizePort_def portCategories_def)
  have c22: "categorizePort 22 = \<lparr>Classification.category = ''Remote Access'', service = ''SSH''\<rparr>"
    by (simp add: categorizePort_def portCategories_def)
  show ?thesis
    by (simp add: buildCategories_def scenario_A_def accumulate_step_def Let_def c80 c443 c22
        Map_has_def Map_get_def Map_set_def Map_values_def rank_categories_def topN_def
        sort_array_def by_count_desc_def js_add_exact)
qed


lemma unlisted_registered:
  "8081 \<le> p \<Longrightarrow> p \<le> 8086 \<Longrightarrow>
   categorizePort p = \<lparr>Classification.category = ''Application'', service = ''Port '' @ show_int p\<rparr>"
proof -
  assume "8081 \<le> p" "p \<le> 8086"
  then have "\<forall>kv \<in> set portCategories. fst kv \<noteq> p" by (simp add: portCategories_def)
  then have "map_of portCategories p = None" by (force simp: map_of_eq_None_iff)
  with \<open>8081 \<le> p\<close> \<open>p \<le> 8086\<close> show ?thesis by (simp add: categorizePort_def)
qed

lemma tied_rows_categories:
  "buildCategories tied_rows =
     Inr [\<lparr>CategorySummary.category = ''Application'', count = 32,
           ports = [\<lparr>PortEntry.port = 8082, service = ''Port 8082'', count = 7\<rparr>,
                    \<lparr>PortEntry.port = 8084, service = ''Port 8084'', count = 7\<rparr>,
                    \<lparr>PortEntry.port = 8086, service = ''Port 8086'', count = 7\<rparr>,
                    \<lparr>PortEntry.port = 8081, service = ''Port 8081'', count = 5\<rparr>,
                    \<lparr>PortEntry.port = 8083, service = ''Port 8083'', count = 5\<rparr>]\<rparr>,
          \<lparr>CategorySummary.category = ''Remote Access'', count = 32,
           ports = [\<lparr>PortEntry.port = 23, service = ''Telnet'', count = 23\<rparr>,
                    \<lparr>PortEntry.port = 22, service = ''SSH'', count = 9\<rparr>]\<rparr>]"
proof -
  have c22: "categorizePort 22 = \<lparr>Classification.category = ''Remote Access'', service = ''SSH''\<rparr>"
    by (simp add: categorizePort_def portCategories_def)
  have c23: "categorizePort 23 = \<lparr>Classification.category = ''Remote Access'', service = ''Telnet''\<rparr>"
    by (simp add: categorizePort_def portCategories_def)
  show ?thesis
    by (simp add: buildCategories_def tied_rows_def accumulate_step_def Let_def c22 c23
        unlisted_registered show_int_eval
        Map_has_def Map_get_def Map_set_def Map_values_def rank_categories_def topN_def
        sort_array_def by_count_desc_def js_add_exact)
qed

section \<open>Claims on the category builder\<close>

lemma big_rows_categories: "buildCategories big_rows = Inr big_categories"
proof -
  have c80: "categorizePort 80 = \<lparr>Classification.category = ''Web'', service = ''HTTP''\<rparr>"
    by (simp add: categorizePort_def portCategories_def)
  have c443: "categorizePort 443 = \<lparr>Classification.category = ''Web'', service = ''HTTPS''\<rparr>"
    by (simp add: categorizePort_def portCategories_def)
  have c8080: "categorizePort 8080 =
      \<lparr>Classification.category = ''Web'', service = ''HTTP Proxy''\<rparr>"
    by (simp add: categorizePort_def portCategories_def)
  have first: "js_add 0 9007199254740992 = 9007199254740992"
    using power_strict_increasing[of 53 1024 "2 :: int"]
    by (simp add: js_add_def number_value_def round_mag_def ulp_of_large ulp_of_small)
  show ?thesis
    by (simp add: buildCategories_def big_rows_def big_categories_def accumulate_step_def Let_def
        c80 c443 c8080 first js_add_at_2_53
        Map_has_def Map_get_def Map_set_def Map_values_def rank_categories_def topN_def
        sort_array_def by_count_desc_def)
qed

lemma exact_counts:
  assumes "sum_list (map (\<lambda>p. \<bar>PortRow.count p\<bar>) rows) < 2 ^ 53"
  shows "foldl js_add 0 (map PortRow.count (rows_of k rows)) =
         sum_list (map PortRow.count (rows_of k rows))"
proof -
  have "sum_list (map abs (map PortRow.count (rows_of k rows))) \<le>
        sum_list (map (\<lambda>p. \<bar>PortRow.count p\<bar>) rows)"
    unfolding rows_of_def map_map comp_def by (rule sum_list_abs_filter)
  with assms have "sum_list (map abs (map PortRow.count (rows_of k rows))) < 2 ^ 53"
    by simp
  then show ?thesis by (rule foldl_js_add_exact)
qed

text \<open>
  C3, as stated, fails where doubles round. The three rows of \<open>big_rows\<close> are all web rows
  and their counts add up to \<open>2\<^sup>5\<^sup>3 + 2\<close>, but the count of the returned category is \<open>2\<^sup>5\<^sup>3\<close>:
  each addition of 1 to \<open>2\<^sup>5\<^sup>3\<close> rounds back to \<open>2\<^sup>5\<^sup>3\<close>.
\<close>

theorem category_count_rounded:
  "buildCategories big_rows =
     Inr [\<lparr>CategorySummary.category = ''Web'', count = 9007199254740992,
           ports = [\<lparr>PortEntry.port = 80, service = ''HTTP'', count = 9007199254740992\<rparr>,
                    \<lparr>PortEntry.port = 443, service = ''HTTPS'', count = 1\<rparr>,
                    \<lparr>PortEntry.port = 8080, service = ''HTTP Proxy'', count = 1\<rparr>]\<rparr>] \<and>
   map category_of big_rows = [''Web'', ''Web'', ''Web''] \<and>
   sum_list (map PortRow.count big_rows) = 9007199254740994"
proof -
  have "map category_of big_rows = [''Web'', ''Web'', ''Web'']"
    by (simp add: big_rows_def category_of_def categorizePort_def portCategories_def)
  moreover have "sum_list (map PortRow.count big_rows) = 9007199254740994"
    by (simp add: big_rows_def)
  ultimately show ?thesis using big_rows_categories by (simp add: big_categories_def)
qed

text \<open>
  C3. For every list of port rows whose counts are integers with magnitudes that add up to
  less than \<open>2\<^sup>5\<^sup>3\<close>, the builder returns categories, and the count of each returned category
  is the sum of the counts of exactly those rows of the list that the classifier puts into
  that category.
\<close>

theorem category_count_consistency:
  assumes "sum_list (map (\<lambda>p. \<bar>PortRow.count p\<bar>) rows) < 2 ^ 53"
  shows "\<exists>cats. buildCategories rows = Inr cats \<and>
     (\<forall>C \<in> set cats.
        CategorySummary.count C =
        sum_list (map PortRow.count
          (filter (\<lambda>p. category_of p = CategorySummary.category C) rows)))"
proof -
  obtain cats where cats: "buildCategories rows = Inr cats"
    by (simp add: buildCategories_closed)
  have "CategorySummary.count C =
        sum_list (map PortRow.count
          (filter (\<lambda>p. category_of p = CategorySummary.category C) rows))"
    if "C \<in> set cats" for C
    using buildCategories_member(2)[OF cats that] exact_counts[OF assms]
    by (simp add: rows_of_def)
  with cats show ?thesis by blast
qed

theorem category_count_consistency_witness:
  "sum_list (map (\<lambda>p. \<bar>PortRow.count p\<bar>) scenario_A) < 2 ^ 53 \<and>
   buildCategories scenario_A =
     Inr [\<lparr>CategorySummary.category = ''Web'', count = 150,
           ports = [\<lparr>PortEntry.port = 80, service = ''HTTP'', count = 100\<rparr>,
                    \<lparr>PortEntry.port = 443, service = ''HTTPS'', count = 50\<rparr>]\<rparr>,
          \<lparr>CategorySummary.category = ''Remote Access'', count = 30,
           ports = [\<lparr>PortEntry.port = 22, service = ''SSH'', count = 30\<rparr>]\<rparr>] \<and>
   sum_list (map PortRow.count (filter (\<lambda>p. category_of p = ''Web'') scenario_A)) = 150 \<and>
   sum_list (map PortRow.count (filter (\<lambda>p. category_of p = ''Remote Access'') scenario_A)) = 30"
proof -
  have safe: "sum_list (map (\<lambda>p. \<bar>PortRow.count p\<bar>) scenario_A) < 2 ^ 53"
    by (simp add: scenario_A_def)
  from category_count_consistency[OF safe] scenario_A_categories safe show ?thesis by auto
qed

text \<open>
  C10, as stated, fails where doubles round. The builder returns one category for
  \<open>big_rows\<close>; its count is \<open>2\<^sup>5\<^sup>3\<close>, while the counts of the rows add up to \<open>2\<^sup>5\<^sup>3 + 2\<close>.
\<close>

theorem totals_rounded:
  "buildCategories big_rows = Inr big_categories \<and>
   sum_list (map CategorySummary.count big_categories) = 9007199254740992 \<and>
   sum_list (map PortRow.count big_rows) = 9007199254740994"
  using big_rows_categories by (simp add: big_categories_def big_rows_def)

text \<open>
  C10. Every row goes to exactly one returned category, and before the cut to five the
  contribution lists of the accumulated map hold as many entries as there are rows. When the
  counts are integers with magnitudes that add up to less than \<open>2\<^sup>5\<^sup>3\<close>, the counts of the
  returned categories add up to the counts of the rows.
\<close>

theorem categories_conserve_totals:
  "\<exists>m cats. accumulate [] rows = Inr m \<and> buildCategories rows = Inr cats \<and>
     (sum_list (map (\<lambda>p. \<bar>PortRow.count p\<bar>) rows) < 2 ^ 53 \<longrightarrow>
        sum_list (map CategorySummary.count cats) = sum_list (map PortRow.count rows)) \<and>
     sum_list (map (\<lambda>c. length (ports c)) (Map_values m)) = length rows \<and>
     (\<forall>p \<in> set rows.
        length (filter (\<lambda>C. CategorySummary.category C = category_of p) cats) = 1)"
proof -
  let ?ks = "first_seen (map category_of rows)"
  let ?base = "map (summary_of rows) ?ks"
  let ?m = "map (\<lambda>k. (k, summary_of rows k)) ?ks"
  let ?cats = "rank_categories ?base"
  have dist: "distinct ?ks" by (rule distinct_first_seen)
  have cover: "set (map category_of rows) \<subseteq> set ?ks" by (simp add: set_first_seen)
  have acc: "accumulate [] rows = Inr ?m" by (rule accumulate_closed)
  have build: "buildCategories rows = Inr ?cats" by (rule buildCategories_closed)
  have counts: "sum_list (map CategorySummary.count ?cats) = sum_list (map PortRow.count rows)"
    if safe: "sum_list (map (\<lambda>p. \<bar>PortRow.count p\<bar>) rows) < 2 ^ 53"
  proof -
    have "sum_list (map CategorySummary.count ?cats) =
          sum_list (map CategorySummary.count
            (sort_array (by_count_desc CategorySummary.count) ?base))"
      by (simp only: rank_categories_count)
    also have "\<dots> = sum_list (map CategorySummary.count ?base)"
      by (rule sum_list_map_perm) (rule mset_sort_array)
    also have "\<dots> = (\<Sum>k\<leftarrow>?ks. foldl js_add 0 (map PortRow.count (rows_of k rows)))"
      by (simp add: comp_def summary_of_def)
    also have "\<dots> = (\<Sum>k\<leftarrow>?ks. sum_list (map PortRow.count (rows_of k rows)))"
      by (simp only: exact_counts[OF safe])
    also have "\<dots> = (\<Sum>k\<leftarrow>?ks. sum_list (map PortRow.count (filter (\<lambda>p. category_of p = k) rows)))"
      by (simp add: rows_of_def)
    also have "\<dots> = sum_list (map PortRow.count rows)"
      using dist cover by (rule sum_list_partition)
    finally show ?thesis .
  qed
  have "sum_list (map (\<lambda>c. length (ports c)) (Map_values ?m)) =
        (\<Sum>k\<leftarrow>?ks. sum_list (map (\<lambda>p. 1 :: nat) (filter (\<lambda>p. category_of p = k) rows)))"
    by (simp add: Map_values_def comp_def summary_of_def rows_of_def sum_list_triv)
  also have "\<dots> = sum_list (map (\<lambda>p. 1 :: nat) rows)"
    using dist cover by (rule sum_list_partition)
  finally have contribs: "sum_list (map (\<lambda>c. length (ports c)) (Map_values ?m)) = length rows"
    by (simp add: sum_list_triv)
  have one: "length (filter (\<lambda>C. CategorySummary.category C = category_of p) ?cats) = 1"
    if "p \<in> set rows" for p
  proof -
    let ?names = "map CategorySummary.category ?cats"
    have names_eq: "map CategorySummary.category ?base = ?ks"
      by (simp add: comp_def summary_of_def)
    have "mset ?names =
          image_mset CategorySummary.category
            (mset (sort_array (by_count_desc CategorySummary.count) ?base))"
      by (simp only: rank_categories_category mset_map)
    also have "\<dots> = image_mset CategorySummary.category (mset ?base)"
      by (simp only: mset_sort_array)
    also have "\<dots> = mset (map CategorySummary.category ?base)"
      by (simp only: mset_map)
    also have "\<dots> = mset ?ks"
      by (simp only: names_eq)
    finally have perm: "mset ?names = mset ?ks" .
    then have "distinct ?names" using dist by (metis mset_eq_imp_distinct_iff)
    moreover have "category_of p \<in> set ?names"
      using perm that by (metis mset_eq_setD set_first_seen image_eqI set_map)
    ultimately have "length (filter (\<lambda>y. y = category_of p) ?names) = 1"
      by (rule distinct_one_match)
    then show ?thesis by (simp add: filter_map comp_def)
  qed
  from acc build counts contribs one show ?thesis by blast
qed

theorem categories_conserve_totals_witness:
  "sum_list (map (\<lambda>p. \<bar>PortRow.count p\<bar>) tied_rows) < 2 ^ 53 \<and>
   sum_list (map PortRow.count tied_rows) = 64 \<and>
   (\<exists>cats. buildCategories tied_rows = Inr cats \<and> sum_list (map CategorySummary.count cats) = 64) \<and>
   (\<exists>m. accumulate [] tied_rows = Inr m \<and>
        sum_list (map (\<lambda>c. length (ports c)) (Map_values m)) = 8)"
proof -
  have safe: "sum_list (map (\<lambda>p. \<bar>PortRow.count p\<bar>) tied_rows) < 2 ^ 53"
    by (simp add: tied_rows_def)
  have total: "sum_list (map PortRow.count tied_rows) = 64" by (simp add: tied_rows_def)
  have len: "length tied_rows = 8" by (simp add: tied_rows_def)
  show ?thesis using categories_conserve_totals[of tied_rows] safe total len by auto
qed

text \<open>
  C5. The ranking is a stable selection, for every list and every count: the outcome is in
  descending order of count; the items of one count that it keeps are an initial part of the
  items of that count in the input, in input order; on the input tagged with positions the
  order is count descending, then position ascending, and the tags do not change what is
  selected; and ranking the outcome again gives the outcome.
\<close>

theorem topN_stable_idempotent:
  "sorted_wrt (\<lambda>a b. cnt a \<ge> cnt b) (topN cnt n xs) \<and>
   (\<forall>k. prefix (filter (\<lambda>x. cnt x = k) (topN cnt n xs)) (filter (\<lambda>x. cnt x = k) xs)) \<and>
   (\<forall>k. filter (\<lambda>x. cnt x = k) (sort_array (by_count_desc cnt) xs) = filter (\<lambda>x. cnt x = k) xs) \<and>
   sorted_wrt (\<lambda>a b. cnt (fst a) > cnt (fst b) \<or> (cnt (fst a) = cnt (fst b) \<and> snd a < snd b))
     (topN (\<lambda>a. cnt (fst a)) n (zip xs [0..<length xs])) \<and>
   map fst (topN (\<lambda>a. cnt (fst a)) n (zip xs [0..<length xs])) = topN cnt n xs \<and>
   topN cnt n (topN cnt n xs) = topN cnt n xs \<and>
   mset (sort_array (by_count_desc cnt) xs) = mset xs \<and>
   length (topN cnt n xs) = min n (length xs)"
proof -
  let ?s = "sort_array (by_count_desc cnt) xs"
  have desc: "sorted_wrt (\<lambda>a b. cnt a \<ge> cnt b) (topN cnt n xs)"
    unfolding topN_def by (intro sorted_wrt_take_part sort_array_desc)
  have stable: "filter (\<lambda>x. cnt x = k) ?s = filter (\<lambda>x. cnt x = k) xs" for k
    by (rule sort_array_stable)
  have pre: "prefix (filter (\<lambda>x. cnt x = k) (topN cnt n xs)) (filter (\<lambda>x. cnt x = k) xs)" for k
    using filter_take_prefix[of "\<lambda>x. cnt x = k" n ?s] by (simp add: topN_def stable)
  have lex: "sorted_wrt (\<lambda>a b. cnt (fst a) > cnt (fst b) \<or> (cnt (fst a) = cnt (fst b) \<and> snd a < snd b))
     (topN (\<lambda>a. cnt (fst a)) n (zip xs [0..<length xs]))"
    unfolding topN_def
    by (intro sorted_wrt_take_part sort_array_lex[where cnt = "\<lambda>a. cnt (fst a)"] enumerate_positions)
  have "topN cnt n (map fst (zip xs [0..<length xs])) =
        map fst (topN (\<lambda>a. cnt (fst a)) n (zip xs [0..<length xs]))"
    by (rule topN_map)
  then have tags: "map fst (topN (\<lambda>a. cnt (fst a)) n (zip xs [0..<length xs])) = topN cnt n xs"
    by simp
  have "sort_array (by_count_desc cnt) (topN cnt n xs) = topN cnt n xs"
    using desc by (rule sort_array_sorted_id)
  then have idem: "topN cnt n (topN cnt n xs) = topN cnt n xs"
    by (simp add: topN_def)
  have len: "length (topN cnt n xs) = min n (length xs)"
    by (simp add: topN_def sort_array_sort_key)
  from desc pre stable lex tags idem len mset_sort_array[of cnt xs] show ?thesis by blast
qed

theorem topN_stable_idempotent_witness:
  "topN snd 3 tied_items = [(''b'', 7), (''d'', 7), (''a'', 5)] \<and>
   topN snd 3 (topN snd 3 tied_items) = [(''b'', 7), (''d'', 7), (''a'', 5)]"
proof -
  have "topN snd 3 tied_items = [(''b'', 7), (''d'', 7), (''a'', 5)]"
    by (simp add: topN_def tied_items_def sort_array_def by_count_desc_def)
  then show ?thesis using topN_stable_idempotent[of snd 3 tied_items] by simp
qed

text \<open>
  C4. The returned categories are in descending order of their totals, and categories with
  equal totals are in the order in which the loop first met them. The ports of a returned
  category are the first five of its contributions sorted by count, descending, where
  contributions of equal count keep the order of the rows. The total of the category adds
  up every contribution, shown or not, in the order of the rows and as doubles; it is the
  exact sum when the magnitudes of the contributions add up to less than \<open>2\<^sup>5\<^sup>3\<close>.
\<close>

theorem categories_ranked:
  "\<exists>cats. buildCategories rows = Inr cats \<and>
     sorted_wrt (\<lambda>a b. CategorySummary.count a > CategorySummary.count b \<or>
                  (CategorySummary.count a = CategorySummary.count b \<and>
                   first_pos rows (CategorySummary.category a) <
                   first_pos rows (CategorySummary.category b))) cats \<and>
     (\<forall>C \<in> set cats. \<exists>S.
        mset S = mset (map entry_of (rows_of (CategorySummary.category C) rows)) \<and>
        sorted_wrt (\<lambda>a b. PortEntry.count a \<ge> PortEntry.count b) S \<and>
        (\<forall>n. filter (\<lambda>e. PortEntry.count e = n) S =
             filter (\<lambda>e. PortEntry.count e = n)
               (map entry_of (rows_of (CategorySummary.category C) rows))) \<and>
        ports C = take 5 S \<and>
        length (ports C) \<le> 5 \<and>
        CategorySummary.count C =
          foldl js_add 0 (map PortEntry.count
            (map entry_of (rows_of (CategorySummary.category C) rows))) \<and>
        (sum_list (map (\<lambda>e. \<bar>PortEntry.count e\<bar>)
            (map entry_of (rows_of (CategorySummary.category C) rows))) < 2 ^ 53 \<longrightarrow>
         CategorySummary.count C =
           sum_list (map PortEntry.count
             (map entry_of (rows_of (CategorySummary.category C) rows)))))"
proof -
  let ?ks = "first_seen (map category_of rows)"
  let ?base = "map (summary_of rows) ?ks"
  let ?cats = "rank_categories ?base"
  let ?Q = "\<lambda>a b. first_pos rows (CategorySummary.category a) <
                  first_pos rows (CategorySummary.category b)"
  have build: "buildCategories rows = Inr ?cats" by (rule buildCategories_closed)
  have "sorted_wrt (\<lambda>a b. first_pos rows a < first_pos rows b) ?ks"
    by (rule first_seen_first_pos)
  then have "sorted_wrt ?Q ?base"
    by (simp add: sorted_wrt_map summary_of_def)
  then have "sorted_wrt (\<lambda>a b. CategorySummary.count a > CategorySummary.count b \<or>
                  (CategorySummary.count a = CategorySummary.count b \<and> ?Q a b))
        (sort_array (by_count_desc CategorySummary.count) ?base)"
    by (rule sort_array_lex)
  then have order: "sorted_wrt (\<lambda>a b. CategorySummary.count a > CategorySummary.count b \<or>
                  (CategorySummary.count a = CategorySummary.count b \<and> ?Q a b)) ?cats"
    by (simp add: rank_categories_def sorted_wrt_map)
  have each: "\<exists>S.
        mset S = mset (map entry_of (rows_of (CategorySummary.category C) rows)) \<and>
        sorted_wrt (\<lambda>a b. PortEntry.count a \<ge> PortEntry.count b) S \<and>
        (\<forall>n. filter (\<lambda>e. PortEntry.count e = n) S =
             filter (\<lambda>e. PortEntry.count e = n)
               (map entry_of (rows_of (CategorySummary.category C) rows))) \<and>
        ports C = take 5 S \<and>
        length (ports C) \<le> 5 \<and>
        CategorySummary.count C =
          foldl js_add 0 (map PortEntry.count
            (map entry_of (rows_of (CategorySummary.category C) rows))) \<and>
        (sum_list (map (\<lambda>e. \<bar>PortEntry.count e\<bar>)
            (map entry_of (rows_of (CategorySummary.category C) rows))) < 2 ^ 53 \<longrightarrow>
         CategorySummary.count C =
           sum_list (map PortEntry.count
             (map entry_of (rows_of (CategorySummary.category C) rows))))"
    if "C \<in> set ?cats" for C
  proof -
    let ?contribs = "map entry_of (rows_of (CategorySummary.category C) rows)"
    let ?S = "sort_array (by_count_desc PortEntry.count) ?contribs"
    have p: "ports C = take 5 ?S"
      using buildCategories_member(3)[OF build that] by (simp add: topN_def)
    have c: "CategorySummary.count C = foldl js_add 0 (map PortEntry.count ?contribs)"
      using buildCategories_member(2)[OF build that] by (simp add: comp_def entry_of_def)
    have x: "CategorySummary.count C = sum_list (map PortEntry.count ?contribs)"
      if "sum_list (map (\<lambda>e. \<bar>PortEntry.count e\<bar>) ?contribs) < 2 ^ 53"
    proof -
      from that have "sum_list (map abs (map PortEntry.count ?contribs)) < 2 ^ 53"
        by (simp add: comp_def)
      then show ?thesis unfolding c by (rule foldl_js_add_exact)
    qed
    have "mset ?S = mset ?contribs" by (rule mset_sort_array)
    moreover have "sorted_wrt (\<lambda>a b. PortEntry.count a \<ge> PortEntry.count b) ?S"
      by (rule sort_array_desc)
    moreover have "\<forall>n. filter (\<lambda>e. PortEntry.count e = n) ?S =
                       filter (\<lambda>e. PortEntry.count e = n) ?contribs"
      by (simp add: sort_array_stable)
    moreover have "length (ports C) \<le> 5" by (simp add: p)
    ultimately show ?thesis using p c x by blast
  qed
  from build order each show ?thesis by blast
qed

theorem categories_ranked_witness:
  "buildCategories tied_rows =
     Inr [\<lparr>CategorySummary.category = ''Application'', count = 32,
           ports = [\<lparr>PortEntry.port = 8082, service = ''Port 8082'', count = 7\<rparr>,
                    \<lparr>PortEntry.port = 8084, service = ''Port 8084'', count = 7\<rparr>,
                    \<lparr>PortEntry.port = 8086, service = ''Port 8086'', count = 7\<rparr>,
                    \<lparr>PortEntry.port = 8081, service = ''Port 8081'', count = 5\<rparr>,
                    \<lparr>PortEntry.port = 8083, service = ''Port 8083'', count = 5\<rparr>]\<rparr>,
          \<lparr>CategorySummary.category = ''Remote Access'', count = 32,
           ports = [\<lparr>PortEntry.port = 23, service = ''Telnet'', count = 23\<rparr>,
                    \<lparr>PortEntry.port = 22, service = ''SSH'', count = 9\<rparr>]\<rparr>] \<and>
   first_pos tied_rows ''Application'' < first_pos tied_rows ''Remote Access''"
  using categories_ranked[of tied_rows] tied_rows_categories by auto

section \<open>Facts about the handler\<close>

lemma limit_eval:
  "limit_of (protocolQuery cid) = None"
  "limit_of (portsQuery cid) = Some 20"
  "limit_of (talkersQuery cid) = Some 20"
  "limit_of (dnsQuery cid) = Some 50"
  "limit_of (destQuery cid) = Some 20"
  by (simp_all add: limit_of_def protocolQuery_def portsQuery_def talkersQuery_def dnsQuery_def
      destQuery_def digitValue_def digitTable_def suffix_def)

lemma GET_success:
  assumes "getDB c = Inr db"
    and "getAll_ProtocolRow c db (protocolQuery (captureId req)) (queryParams (captureId req)) = Inr pr"
    and "getAll_PortRow c db (portsQuery (captureId req)) (queryParams (captureId req)) = Inr po"
    and "getAll_TalkerRow c db (talkersQuery (captureId req)) (queryParams (captureId req)) = Inr ta"
    and "getAll_DNSRow c db (dnsQuery (captureId req)) (queryParams (captureId req)) = Inr dn"
    and "getAll_DestRow c db (destQuery (captureId req)) (queryParams (captureId req)) = Inr de"
    and "buildCategories po = Inr ca"
  shows "GET c req =
    ([(protocolQuery (captureId req), queryParams (captureId req)),
      (portsQuery (captureId req), queryParams (captureId req)),
      (talkersQuery (captureId req), queryParams (captureId req)),
      (dnsQuery (captureId req), queryParams (captureId req)),
      (destQuery (captureId req), queryParams (captureId req))],
     \<lparr>status = 200,
      body = [(''protocols'', JProtocols pr), (''ports'', JPorts po), (''talkers'', JTalkers ta),
              (''dnsDomains'', JDomains dn), (''destinations'', JDestinations de),
              (''categories'', JCategories ca)]\<rparr>)"
  using assms by (simp add: GET_def Let_def)

lemma GET_failure:
  assumes "getDB c = Inr db"
    and "isl (getAll_ProtocolRow c db (protocolQuery (captureId req)) (queryParams (captureId req))) \<or>
         isl (getAll_PortRow c db (portsQuery (captureId req)) (queryParams (captureId req))) \<or>
         isl (getAll_TalkerRow c db (talkersQuery (captureId req)) (queryParams (captureId req))) \<or>
         isl (getAll_DNSRow c db (dnsQuery (captureId req)) (queryParams (captureId req))) \<or>
         isl (getAll_DestRow c db (destQuery (captureId req)) (queryParams (captureId req)))"
  shows "snd (GET c req) = failed"
  using assms by (auto simp: GET_def Let_def split: sum.splits)

lemma GET_no_failure:
  assumes "getDB c = Inr db"
    and "\<not> (isl (getAll_ProtocolRow c db (protocolQuery (captureId req)) (queryParams (captureId req))) \<or>
         isl (getAll_PortRow c db (portsQuery (captureId req)) (queryParams (captureId req))) \<or>
         isl (getAll_TalkerRow c db (talkersQuery (captureId req)) (queryParams (captureId req))) \<or>
         isl (getAll_DNSRow c db (dnsQuery (captureId req)) (queryParams (captureId req))) \<or>
         isl (getAll_DestRow c db (destQuery (captureId req)) (queryParams (captureId req))))"
  shows "status (snd (GET c req)) = 200 \<and>
         map fst (body (snd (GET c req))) =
           [''protocols'', ''ports'', ''talkers'', ''dnsDomains'', ''destinations'', ''categories'']"
proof -
  from assms(2) obtain pr po ta dn de where
    "getAll_ProtocolRow c db (protocolQuery (captureId req)) (queryParams (captureId req)) = Inr pr"
    "getAll_PortRow c db (portsQuery (captureId req)) (queryParams (captureId req)) = Inr po"
    "getAll_TalkerRow c db (talkersQuery (captureId req)) (queryParams (captureId req)) = Inr ta"
    "getAll_DNSRow c db (dnsQuery (captureId req)) (queryParams (captureId req)) = Inr dn"
    "getAll_DestRow c db (destQuery (captureId req)) (queryParams (captureId req)) = Inr de"
    by (auto simp: isl_def) (metis sum.exhaust)
  from GET_success[OF assms(1) this buildCategories_closed] show ?thesis by simp
qed

lemma GET_reads:
  "rd \<in> set (fst (GET c req)) \<Longrightarrow> snd rd = queryParams (captureId req)"
  by (auto simp: GET_def Let_def split: sum.splits)

lemma GET_first_read:
  "getDB c = Inr db \<Longrightarrow>
   \<exists>rest. fst (GET c req) = (protocolQuery (captureId req), queryParams (captureId req)) # rest"
  by (auto simp: GET_def Let_def split: sum.splits)

lemma GET_status_200:
  assumes "status (snd (GET c req)) = 200"
  shows "\<exists>db pr po ta dn de. getDB c = Inr db \<and>
     getAll_ProtocolRow c db (protocolQuery (captureId req)) (queryParams (captureId req)) = Inr pr \<and>
     getAll_PortRow c db (portsQuery (captureId req)) (queryParams (captureId req)) = Inr po \<and>
     getAll_TalkerRow c db (talkersQuery (captureId req)) (queryParams (captureId req)) = Inr ta \<and>
     getAll_DNSRow c db (dnsQuery (captureId req)) (queryParams (captureId req)) = Inr dn \<and>
     getAll_DestRow c db (destQuery (captureId req)) (queryParams (captureId req)) = Inr de"
  using assms by (auto simp: GET_def Let_def failed_def split: sum.splits)

lemma honours_limit_busy: "honours_limit busy_client"
  by (auto simp: honours_limit_def busy_client_def sample_client_def limited_def)


lemma sample_reads:
  "getDB sample_client = Inr ()"
  "getAll_ProtocolRow sample_client db q ps =
     Inr (limited q (scoped ps [\<lparr>ProtocolRow.protocol = ''TCP'', count = 180\<rparr>]))"
  "getAll_PortRow sample_client db q ps = Inr (limited q (scoped ps scenario_A))"
  "getAll_TalkerRow sample_client db q ps = Inr (limited q (scoped ps
         [\<lparr>ip = ''10.0.0.5'', bytes_sent = 1000, bytes_received = 2000,
           packets_sent = 10, packets_received = 20\<rparr>,
          \<lparr>ip = ''10.0.0.9'', bytes_sent = 500, bytes_received = 500,
           packets_sent = 5, packets_received = 5\<rparr>]))"
  "getAll_DNSRow sample_client db q ps =
     Inr (limited q (scoped ps [\<lparr>domain = ''example.com'', query_count = 4\<rparr>]))"
  "getAll_DestRow sample_client db q ps =
     Inr (limited q (scoped ps
       [\<lparr>address = ''93.184.216.34'', connection_count = 2, bytes_total = 4096\<rparr>]))"
  by (simp_all add: sample_client_def)

lemma buildCategories_Nil: "buildCategories [] = Inr []"
  by (simp add: buildCategories_def Map_values_def rank_categories_def sort_array_def)

lemma limited_Nil: "limited q [] = []"
  by (simp add: limited_def split: option.splits)

lemma scoped_NaN: "scoped [NaN] rows = []"
  by (simp add: scoped_def)

lemma parseInt_abc: "parseInt ''abc'' = NaN"
proof -
  have ws: "\<not> isWhiteSpace (CHR ''a'')" by (simp add: isWhiteSpace_def)
  have dv: "digitValue 10 (CHR ''a'') = None" by (simp add: digitValue_def digitTable_def)
  show ?thesis by (simp add: parseInt_def Let_def ws dv)
qed

lemma params_abc: "queryParams (Some ''abc'') = [NaN]"
  by (simp add: queryParams_def truthy_def parseInt_abc)

section \<open>Claims on the handler\<close>

text \<open>
  C6. The handler gives no partial answer. When the database cannot be opened, or when any
  one of the five reads throws, the answer is the one failure object with status 500 and the
  single field \<open>error\<close>; only when all five reads return is the answer a status 200 object
  with the six lists. The two kinds of answer differ in status and in their fields.
\<close>

theorem no_partial_results:
  "(\<forall>e. getDB c = Inl e \<longrightarrow> GET c req = ([], failed)) \<and>
   (\<forall>db. getDB c = Inr db \<longrightarrow>
      ((isl (getAll_ProtocolRow c db (protocolQuery (captureId req)) (queryParams (captureId req))) \<or>
        isl (getAll_PortRow c db (portsQuery (captureId req)) (queryParams (captureId req))) \<or>
        isl (getAll_TalkerRow c db (talkersQuery (captureId req)) (queryParams (captureId req))) \<or>
        isl (getAll_DNSRow c db (dnsQuery (captureId req)) (queryParams (captureId req))) \<or>
        isl (getAll_DestRow c db (destQuery (captureId req)) (queryParams (captureId req))))
       \<longrightarrow> snd (GET c req) = failed) \<and>
      (\<not> (isl (getAll_ProtocolRow c db (protocolQuery (captureId req)) (queryParams (captureId req))) \<or>
        isl (getAll_PortRow c db (portsQuery (captureId req)) (queryParams (captureId req))) \<or>
        isl (getAll_TalkerRow c db (talkersQuery (captureId req)) (queryParams (captureId req))) \<or>
        isl (getAll_DNSRow c db (dnsQuery (captureId req)) (queryParams (captureId req))) \<or>
        isl (getAll_DestRow c db (destQuery (captureId req)) (queryParams (captureId req))))
       \<longrightarrow> status (snd (GET c req)) = 200 \<and>
           map fst (body (snd (GET c req))) =
             [''protocols'', ''ports'', ''talkers'', ''dnsDomains'', ''destinations'',
              ''categories''])) \<and>
   status failed = 500 \<and>
   body failed = [(''error'', JString ''Failed to fetch traffic data'')]"
proof -
  have a: "\<forall>e. getDB c = Inl e \<longrightarrow> GET c req = ([], failed)"
    by (simp add: GET_def Let_def)
  have b: "status failed = 500 \<and>
           body failed = [(''error'', JString ''Failed to fetch traffic data'')]"
    by (simp add: failed_def)
  from a b GET_failure[of c _ req] GET_no_failure[of c _ req] show ?thesis by blast
qed

theorem no_partial_results_witness:
  "GET broken_client \<lparr>captureId = None\<rparr> =
     ([(protocolQuery None, []), (portsQuery None, []), (talkersQuery None, [])], failed) \<and>
   status (snd (GET broken_client \<lparr>captureId = None\<rparr>)) = 500 \<and>
   status (snd (GET sample_client \<lparr>captureId = None\<rparr>)) = 200"
proof -
  have db: "getDB broken_client = Inr ()" "getDB sample_client = Inr ()"
    by (simp_all add: broken_client_def sample_client_def)
  have thrown: "isl (getAll_TalkerRow broken_client () (talkersQuery None) [])"
    by (simp add: broken_client_def)
  have fine: "\<not> isl (getAll_ProtocolRow sample_client () q ps)"
    "\<not> isl (getAll_PortRow sample_client () q ps)"
    "\<not> isl (getAll_TalkerRow sample_client () q ps)"
    "\<not> isl (getAll_DNSRow sample_client () q ps)"
    "\<not> isl (getAll_DestRow sample_client () q ps)" for q ps
    by (simp_all add: sample_client_def)
  have params: "queryParams None = []" by (simp add: queryParams_def)
  have run: "GET broken_client \<lparr>captureId = None\<rparr> =
     ([(protocolQuery None, []), (portsQuery None, []), (talkersQuery None, [])], failed)"
    by (simp add: GET_def Let_def broken_client_def sample_client_def params)
  from no_partial_results[of broken_client "\<lparr>captureId = None\<rparr>"]
       no_partial_results[of sample_client "\<lparr>captureId = None\<rparr>"]
       db thrown fine params run
  show ?thesis by simp
qed

text \<open>
  C7, as stated, fails for the four ranked lists. The handler returns the rows as it read
  them and never cuts them: from a store that answers the port read with twenty-five rows
  it makes a status 200 answer whose \<open>ports\<close> field holds all twenty-five.
\<close>

theorem store_rows_not_truncated:
  "status (snd (GET lax_client \<lparr>captureId = None\<rparr>)) = 200 \<and>
   map_of (body (snd (GET lax_client \<lparr>captureId = None\<rparr>))) ''ports'' = Some (JPorts many_rows) \<and>
   length many_rows = 25"
proof -
  have params: "queryParams None = []" by (simp add: queryParams_def)
  obtain ca where ca: "buildCategories many_rows = Inr ca"
    by (simp add: buildCategories_closed)
  have "\<exists>pr ta dn de. snd (GET lax_client \<lparr>captureId = None\<rparr>) =
     \<lparr>status = 200,
      body = [(''protocols'', JProtocols pr), (''ports'', JPorts many_rows),
              (''talkers'', JTalkers ta), (''dnsDomains'', JDomains dn),
              (''destinations'', JDestinations de), (''categories'', JCategories ca)]\<rparr>"
    by (subst GET_success[where c = lax_client and db = "()" and po = many_rows and ca = ca])
       (simp_all add: lax_client_def sample_client_def params ca)
  then obtain pr ta dn de where "snd (GET lax_client \<lparr>captureId = None\<rparr>) =
     \<lparr>status = 200,
      body = [(''protocols'', JProtocols pr), (''ports'', JPorts many_rows),
              (''talkers'', JTalkers ta), (''dnsDomains'', JDomains dn),
              (''destinations'', JDestinations de), (''categories'', JCategories ca)]\<rparr>"
    by blast
  then show ?thesis by (simp add: many_rows_def)
qed

text \<open>
  C7. A status 200 answer has exactly the six fields \<open>protocols\<close>, \<open>ports\<close>, \<open>talkers\<close>,
  \<open>dnsDomains\<close>, \<open>destinations\<close>, \<open>categories\<close>, and no category shows more than five ports.
  The four ranked lists are what the store returned for SQL texts that end in
  \<^verbatim>\<open>LIMIT 20\<close>, \<^verbatim>\<open>LIMIT 20\<close>, \<^verbatim>\<open>LIMIT 50\<close> and \<^verbatim>\<open>LIMIT 20\<close>: with a store that honours the clause they
  have at most 20, 20, 50 and 20 entries.
\<close>

theorem truncation_bounds:
  assumes "status (snd (GET c req)) = 200"
  shows "\<exists>pr po ta dn de ca.
     body (snd (GET c req)) =
       [(''protocols'', JProtocols pr), (''ports'', JPorts po), (''talkers'', JTalkers ta),
        (''dnsDomains'', JDomains dn), (''destinations'', JDestinations de),
        (''categories'', JCategories ca)] \<and>
     (\<forall>C \<in> set ca. length (ports C) \<le> 5) \<and>
     (honours_limit c \<longrightarrow>
        length po \<le> 20 \<and> length ta \<le> 20 \<and> length dn \<le> 50 \<and> length de \<le> 20)"
proof -
  let ?cid = "captureId req"
  from GET_status_200[OF assms] obtain db pr po ta dn de where db: "getDB c = Inr db"
    and pr: "getAll_ProtocolRow c db (protocolQuery ?cid) (queryParams ?cid) = Inr pr"
    and po: "getAll_PortRow c db (portsQuery ?cid) (queryParams ?cid) = Inr po"
    and ta: "getAll_TalkerRow c db (talkersQuery ?cid) (queryParams ?cid) = Inr ta"
    and dn: "getAll_DNSRow c db (dnsQuery ?cid) (queryParams ?cid) = Inr dn"
    and de: "getAll_DestRow c db (destQuery ?cid) (queryParams ?cid) = Inr de"
    by blast
  obtain ca where ca: "buildCategories po = Inr ca" by (simp add: buildCategories_closed)
  have body: "body (snd (GET c req)) =
       [(''protocols'', JProtocols pr), (''ports'', JPorts po), (''talkers'', JTalkers ta),
        (''dnsDomains'', JDomains dn), (''destinations'', JDestinations de),
        (''categories'', JCategories ca)]"
    using GET_success[OF db pr po ta dn de ca] by simp
  have five: "length (ports C) \<le> 5" if "C \<in> set ca" for C
    using buildCategories_member(3)[OF ca that] by (simp add: topN_def)
  have lim: "length po \<le> 20 \<and> length ta \<le> 20 \<and> length dn \<le> 50 \<and> length de \<le> 20"
    if "honours_limit c"
    using that po ta dn de limit_eval[of ?cid] unfolding honours_limit_def by blast
  from body five lim show ?thesis by blast
qed

theorem truncation_bounds_witness:
  "honours_limit busy_client \<and>
   status (snd (GET busy_client \<lparr>captureId = None\<rparr>)) = 200 \<and>
   (\<exists>pr po ta dn de ca.
      body (snd (GET busy_client \<lparr>captureId = None\<rparr>)) =
        [(''protocols'', JProtocols pr), (''ports'', JPorts po), (''talkers'', JTalkers ta),
         (''dnsDomains'', JDomains dn), (''destinations'', JDestinations de),
         (''categories'', JCategories ca)] \<and>
      length po = 20 \<and> length ta = 2 \<and> length dn = 1 \<and> length de = 1)"
proof -
  let ?req = "\<lparr>captureId = None\<rparr>"
  let ?rows = "many_rows"
  have params: "queryParams None = []" by (simp add: queryParams_def)
  obtain ca where ca: "buildCategories (take 20 ?rows) = Inr ca"
    by (simp add: buildCategories_closed)
  have run: "snd (GET busy_client ?req) =
     \<lparr>status = 200,
      body = [(''protocols'', JProtocols [\<lparr>ProtocolRow.protocol = ''TCP'', count = 180\<rparr>]),
              (''ports'', JPorts (take 20 ?rows)),
              (''talkers'', JTalkers
                 [\<lparr>ip = ''10.0.0.5'', bytes_sent = 1000, bytes_received = 2000,
                   packets_sent = 10, packets_received = 20\<rparr>,
                  \<lparr>ip = ''10.0.0.9'', bytes_sent = 500, bytes_received = 500,
                   packets_sent = 5, packets_received = 5\<rparr>]),
              (''dnsDomains'', JDomains [\<lparr>domain = ''example.com'', query_count = 4\<rparr>]),
              (''destinations'', JDestinations
                 [\<lparr>address = ''93.184.216.34'', connection_count = 2, bytes_total = 4096\<rparr>]),
              (''categories'', JCategories ca)]\<rparr>"
    by (subst GET_success[where c = busy_client and db = "()" and ca = ca])
       (simp_all add: busy_client_def sample_client_def params limited_def scoped_def limit_eval ca)
  have ok: "status (snd (GET busy_client ?req)) = 200" by (simp add: run)
  have len: "length (take 20 many_rows) = 20" by (simp add: many_rows_def)
  from truncation_bounds[OF ok] honours_limit_busy ok run len show ?thesis by simp
qed

text \<open>
  C8. When the database opens and the five reads return, the answer has status 200 and
  carries the rows of each read as they are, so an empty result stays an empty list and is
  not an error; the builder turns an empty list of port rows into an empty list of
  categories.
\<close>

theorem empty_rows_succeed:
  assumes "getDB c = Inr db"
    and "getAll_ProtocolRow c db (protocolQuery (captureId req)) (queryParams (captureId req)) = Inr pr"
    and "getAll_PortRow c db (portsQuery (captureId req)) (queryParams (captureId req)) = Inr po"
    and "getAll_TalkerRow c db (talkersQuery (captureId req)) (queryParams (captureId req)) = Inr ta"
    and "getAll_DNSRow c db (dnsQuery (captureId req)) (queryParams (captureId req)) = Inr dn"
    and "getAll_DestRow c db (destQuery (captureId req)) (queryParams (captureId req)) = Inr de"
  shows "\<exists>ca. buildCategories po = Inr ca \<and> (po = [] \<longrightarrow> ca = []) \<and>
     snd (GET c req) =
       \<lparr>status = 200,
        body = [(''protocols'', JProtocols pr), (''ports'', JPorts po), (''talkers'', JTalkers ta),
                (''dnsDomains'', JDomains dn), (''destinations'', JDestinations de),
                (''categories'', JCategories ca)]\<rparr>"
proof -
  obtain ca where ca: "buildCategories po = Inr ca" by (simp add: buildCategories_closed)
  have "ca = []" if "po = []" using ca that by (simp add: buildCategories_Nil)
  moreover have "snd (GET c req) =
       \<lparr>status = 200,
        body = [(''protocols'', JProtocols pr), (''ports'', JPorts po), (''talkers'', JTalkers ta),
                (''dnsDomains'', JDomains dn), (''destinations'', JDestinations de),
                (''categories'', JCategories ca)]\<rparr>"
    using GET_success[OF assms ca] by simp
  ultimately show ?thesis using ca by blast
qed

theorem empty_rows_succeed_witness:
  "buildCategories [] = Inr [] \<and>
   snd (GET empty_client \<lparr>captureId = None\<rparr>) =
     \<lparr>status = 200,
      body = [(''protocols'', JProtocols []), (''ports'', JPorts []), (''talkers'', JTalkers []),
              (''dnsDomains'', JDomains []), (''destinations'', JDestinations []),
              (''categories'', JCategories [])]\<rparr>"
  using empty_rows_succeed[of empty_client "()" "\<lparr>captureId = None\<rparr>" "[]" "[]" "[]" "[]" "[]"]
    buildCategories_Nil
  by (simp add: empty_client_def)

text \<open>
  C1. The handler does not check the capture identifier. With \<^verbatim>\<open>captureId = "abc"\<close> it issues
  all five reads, each with the \<^verbatim>\<open>WHERE capture_id = ?\<close> filter and the parameter \<^verbatim>\<open>NaN\<close>, and
  answers with status 200; on the sample store, where no capture matches, the six lists are
  empty.
\<close>

theorem invalid_scope_not_rejected:
  "GET sample_client \<lparr>captureId = Some ''abc''\<rparr> =
     ([(''SELECT protocol, SUM(count) as count FROM protocol_counts WHERE capture_id = ? GROUP BY protocol ORDER BY count DESC'', [NaN]),
       (portsQuery (Some ''abc''), [NaN]),
       (talkersQuery (Some ''abc''), [NaN]),
       (dnsQuery (Some ''abc''), [NaN]),
       (destQuery (Some ''abc''), [NaN])],
      \<lparr>status = 200,
       body = [(''protocols'', JProtocols []), (''ports'', JPorts []), (''talkers'', JTalkers []),
               (''dnsDomains'', JDomains []), (''destinations'', JDestinations []),
               (''categories'', JCategories [])]\<rparr>)"
proof -
  have q: "protocolQuery (Some ''abc'') =
    ''SELECT protocol, SUM(count) as count FROM protocol_counts WHERE capture_id = ? GROUP BY protocol ORDER BY count DESC''"
    by (simp add: protocolQuery_def whereClause_def truthy_def)
  have "GET sample_client \<lparr>captureId = Some ''abc''\<rparr> =
     ([(protocolQuery (Some ''abc''), [NaN]),
       (portsQuery (Some ''abc''), [NaN]),
       (talkersQuery (Some ''abc''), [NaN]),
       (dnsQuery (Some ''abc''), [NaN]),
       (destQuery (Some ''abc''), [NaN])],
      \<lparr>status = 200,
       body = [(''protocols'', JProtocols []), (''ports'', JPorts []), (''talkers'', JTalkers []),
               (''dnsDomains'', JDomains []), (''destinations'', JDestinations []),
               (''categories'', JCategories [])]\<rparr>)"
    using GET_success[of sample_client "()" "\<lparr>captureId = Some ''abc''\<rparr>" "[]" "[]" "[]" "[]" "[]" "[]"]
    by (simp add: sample_reads params_abc scoped_NaN limited_Nil buildCategories_Nil)
  then show ?thesis by (simp only: q)
qed

text \<open>
  C1, as the handler behaves. For every non-empty capture identifier, valid or not, once the
  database is open the first read goes out with the filter and the parameter
  \<^verbatim>\<open>parseInt(captureId)\<close>, every read that goes out carries that parameter, and the answer has
  status 200 whenever no read throws.
\<close>

theorem scope_passed_unvalidated:
  assumes "captureId req = Some s" and "s \<noteq> []" and "getDB c = Inr db"
  shows "(\<exists>rest. fst (GET c req) =
            (''SELECT protocol, SUM(count) as count FROM protocol_counts'' @
             '' WHERE capture_id = ?'' @ '' GROUP BY protocol ORDER BY count DESC'',
             [parseInt s]) # rest) \<and>
         (\<forall>rd \<in> set (fst (GET c req)). snd rd = [parseInt s]) \<and>
         (\<not> (isl (getAll_ProtocolRow c db (protocolQuery (Some s)) [parseInt s]) \<or>
             isl (getAll_PortRow c db (portsQuery (Some s)) [parseInt s]) \<or>
             isl (getAll_TalkerRow c db (talkersQuery (Some s)) [parseInt s]) \<or>
             isl (getAll_DNSRow c db (dnsQuery (Some s)) [parseInt s]) \<or>
             isl (getAll_DestRow c db (destQuery (Some s)) [parseInt s]))
          \<longrightarrow> status (snd (GET c req)) = 200)"
proof -
  have params: "queryParams (Some s) = [parseInt s]"
    using assms(2) by (simp add: queryParams_def truthy_def)
  have q: "protocolQuery (Some s) =
      ''SELECT protocol, SUM(count) as count FROM protocol_counts'' @
      '' WHERE capture_id = ?'' @ '' GROUP BY protocol ORDER BY count DESC''"
    using assms(2) by (simp add: protocolQuery_def whereClause_def truthy_def)
  from GET_first_read[OF assms(3), of req] GET_reads[of _ c req]
       GET_no_failure[OF assms(3), of req]
  show ?thesis unfolding assms(1) params q by blast
qed

theorem scope_passed_unvalidated_witness:
  "parseInt ''abc'' = NaN \<and>
   (\<exists>rest. fst (GET sample_client \<lparr>captureId = Some ''abc''\<rparr>) =
      (''SELECT protocol, SUM(count) as count FROM protocol_counts WHERE capture_id = ? GROUP BY protocol ORDER BY count DESC'',
       [NaN]) # rest) \<and>
   status (snd (GET sample_client \<lparr>captureId = Some ''abc''\<rparr>)) = 200"
proof -
  have nan: "parseInt ''abc'' = NaN" by (rule parseInt_abc)
  have fine: "\<not> isl (getAll_ProtocolRow sample_client () q ps)"
    "\<not> isl (getAll_PortRow sample_client () q ps)"
    "\<not> isl (getAll_TalkerRow sample_client () q ps)"
    "\<not> isl (getAll_DNSRow sample_client () q ps)"
    "\<not> isl (getAll_DestRow sample_client () q ps)" for q ps
    by (simp_all add: sample_client_def)
  from scope_passed_unvalidated[of "\<lparr>captureId = Some ''abc''\<rparr>" "''abc''" sample_client "()"]
    nan fine sample_reads(1)
  show ?thesis by simp
qed

end
